theory Spec2Isabelle
  imports Complex_Main "HOL-Library.Monad_Syntax" "HOL-Library.Multiset"
begin

chapter \<open>sqlflow: the DDL parser, the layout engine and the edge router\<close>

text \<open>
  A shallow embedding of \<^verbatim>\<open>sqlflow-app/src/utils/sqlParser.ts\<close> (class SQLParser),
  of the class LayoutEngine and of \<^verbatim>\<open>sqlflow-app/src/utils/edgeRouting.ts\<close>.

  Strings are HOL strings; a \<^typ>\<open>char\<close> stands for a UTF-16 code unit below 256.
  Console output is not modelled. A loop of the source that can run forever returns
  \<^typ>\<open>'a option\<close> in the model, \<^term>\<open>None\<close> standing for "does not return".
\<close>

section \<open>Strings\<close>

text \<open>White space as the regular expression class \<^verbatim>\<open>\s\<close> and \<^verbatim>\<open>String.prototype.trim\<close>
  see it (tab, line feed, vertical tab, form feed, carriage return, space, no-break space),
  and the word characters of \<^verbatim>\<open>\w\<close>.\<close>

definition isSpace :: "char \<Rightarrow> bool" where
  "isSpace c = (let n = (of_char c :: nat) in (9 \<le> n \<and> n \<le> 13) \<or> n = 32 \<or> n = 160)"

definition isWord :: "char \<Rightarrow> bool" where
  "isWord c = (let n = (of_char c :: nat) in
     (48 \<le> n \<and> n \<le> 57) \<or> (65 \<le> n \<and> n \<le> 90) \<or> n = 95 \<or> (97 \<le> n \<and> n \<le> 122))"

text \<open>The code of a character after the case folding of the \<^verbatim>\<open>i\<close> flag (only the letters
  a to z fold onto ASCII letters), and the code after \<^verbatim>\<open>toLowerCase\<close>.\<close>

definition canon :: "char \<Rightarrow> nat" where
  "canon c = (let n = (of_char c :: nat) in if 97 \<le> n \<and> n \<le> 122 then n - 32 else n)"

definition lowerCode :: "char \<Rightarrow> nat" where
  "lowerCode c = (let n = (of_char c :: nat) in
     if (65 \<le> n \<and> n \<le> 90) \<or> (192 \<le> n \<and> n \<le> 222 \<and> n \<noteq> 215) then n + 32 else n)"

text \<open>\<^verbatim>\<open>s.toLowerCase()\<close>, as the list of the codes of its characters: the source only
  compares lower-cased strings and searches them.\<close>

definition toLowerCase :: "string \<Rightarrow> nat list" where
  "toLowerCase s = map lowerCode s"

definition trim :: "string \<Rightarrow> string" where
  "trim s = rev (dropWhile isSpace (rev (dropWhile isSpace s)))"

fun startsWith :: "'a list \<Rightarrow> 'a list \<Rightarrow> bool" where
  "startsWith s [] = True"
| "startsWith [] (c # cs) = False"
| "startsWith (x # xs) (c # cs) = (x = c \<and> startsWith xs cs)"

fun includesStr :: "'a list \<Rightarrow> 'a list \<Rightarrow> bool" where
  "includesStr [] sub = (sub = [])"
| "includesStr (x # xs) sub = (startsWith (x # xs) sub \<or> includesStr xs sub)"

definition endsWith :: "string \<Rightarrow> string \<Rightarrow> bool" where
  "endsWith s e = startsWith (rev s) (rev e)"

text \<open>\<^verbatim>\<open>s.split(sep)\<close> for a separator of one character: never an empty list.\<close>

fun split :: "char \<Rightarrow> string \<Rightarrow> string list" where
  "split sep [] = [[]]"
| "split sep (x # xs) =
     (if x = sep then [] # split sep xs
      else (case split sep xs of [] \<Rightarrow> [[x]] | y # ys \<Rightarrow> (x # y) # ys))"

fun join :: "string \<Rightarrow> string list \<Rightarrow> string" where
  "join sep [] = []"
| "join sep [x] = x"
| "join sep (x # y # ys) = x @ sep @ join sep (y # ys)"

text \<open>A number in a template literal: the decimal digits of a natural number.\<close>

definition digit :: "nat \<Rightarrow> char" where
  "digit d = (''0123456789'' ! d)"

function showNat :: "nat \<Rightarrow> string" where
  "showNat n = (if n < 10 then [digit n] else showNat (n div 10) @ [digit (n mod 10)])"
  by pat_completeness auto
termination
  by (relation "measure id") auto

declare showNat.simps [simp del]

section \<open>Regular expressions\<close>

text \<open>
  The regular expressions of the source use literals, the classes \<^verbatim>\<open>\s\<close>, \<^verbatim>\<open>\w\<close>,
  \<^verbatim>\<open>.\<close> and bracket classes, \<^verbatim>\<open>*\<close>, \<^verbatim>\<open>+\<close> and \<^verbatim>\<open>*?\<close> on a single class, optional
  groups, capture groups, alternatives, \<^verbatim>\<open>^\<close>, \<^verbatim>\<open>$\<close> and \<^verbatim>\<open>\b\<close>. Every regular
  expression of the source with a letter in it has the flag \<^verbatim>\<open>i\<close>, so a literal is
  compared after case folding.
\<close>

datatype catom = ASpace | ANotSpace | AWord | AChar char

datatype cclass = Pos "catom list" | Neg "catom list" | Dot

fun inAtom :: "catom \<Rightarrow> char \<Rightarrow> bool" where
  "inAtom ASpace c = isSpace c"
| "inAtom ANotSpace c = (\<not> isSpace c)"
| "inAtom AWord c = isWord c"
| "inAtom (AChar d) c = (c = d)"

fun inClass :: "cclass \<Rightarrow> char \<Rightarrow> bool" where
  "inClass (Pos as) c = list_ex (\<lambda>a. inAtom a c) as"
| "inClass (Neg as) c = (\<not> list_ex (\<lambda>a. inAtom a c) as)"
| "inClass Dot c = (c \<noteq> CHR 0x0A \<and> c \<noteq> CHR 0x0D)"

text \<open>\<^term>\<open>Star cc greedy\<close> is \<^verbatim>\<open>cc*\<close> (\<^verbatim>\<open>cc*?\<close> when not greedy),
  \<^term>\<open>Plus cc greedy\<close> is \<^verbatim>\<open>cc+\<close>, \<^term>\<open>Opt r\<close> is \<^verbatim>\<open>(?:r)?\<close>,
  \<^term>\<open>Group n r\<close> is the n-th capture group.\<close>

datatype re =
    Eps
  | Chars string
  | One cclass
  | Star cclass bool
  | Plus cclass bool
  | Opt re
  | Group nat re
  | Seq re re
  | Alt re re
  | Bol
  | Eol
  | WordB

type_synonym caps = "nat \<rightharpoonup> string"

text \<open>The state of a match attempt: the character before the current position (none at the
  start of the input), the input from the current position on, and the captures so far.\<close>

type_synonym mstate = "char option \<times> string \<times> caps"

fun lit :: "string \<Rightarrow> char option \<Rightarrow> string \<Rightarrow> (char option \<times> string) option" where
  "lit [] p s = Some (p, s)"
| "lit (c # cs) p [] = None"
| "lit (c # cs) p (x # xs) = (if canon x = canon c then lit cs (Some x) xs else None)"

text \<open>A backtracking matcher with a continuation: the first success in the order in which
  the engine of the language tries the alternatives (a greedy quantifier the longest
  repetition first, a lazy one the shortest first, an optional group with the group first).\<close>

fun star :: "cclass \<Rightarrow> bool \<Rightarrow> char option \<Rightarrow> string \<Rightarrow> caps \<Rightarrow> (mstate \<Rightarrow> 'a option) \<Rightarrow> 'a option" where
  "star cc g p [] c k = k (p, [], c)"
| "star cc g p (x # xs) c k =
     (if g then
        (if inClass cc x then
           (case star cc g (Some x) xs c k of Some r \<Rightarrow> Some r | None \<Rightarrow> k (p, x # xs, c))
         else k (p, x # xs, c))
      else
        (case k (p, x # xs, c) of Some r \<Rightarrow> Some r
         | None \<Rightarrow> if inClass cc x then star cc g (Some x) xs c k else None))"

definition isWordO :: "char option \<Rightarrow> bool" where
  "isWordO p = (case p of None \<Rightarrow> False | Some c \<Rightarrow> isWord c)"

fun m :: "re \<Rightarrow> mstate \<Rightarrow> (mstate \<Rightarrow> 'a option) \<Rightarrow> 'a option" where
  "m Eps st k = k st"
| "m (Chars cs) (p, s, c) k = (case lit cs p s of None \<Rightarrow> None | Some (p', s') \<Rightarrow> k (p', s', c))"
| "m (One cc) (p, s, c) k =
     (case s of [] \<Rightarrow> None | x # xs \<Rightarrow> if inClass cc x then k (Some x, xs, c) else None)"
| "m (Star cc g) (p, s, c) k = star cc g p s c k"
| "m (Plus cc g) (p, s, c) k =
     (case s of [] \<Rightarrow> None | x # xs \<Rightarrow> if inClass cc x then star cc g (Some x) xs c k else None)"
| "m (Opt r) st k = (case m r st k of Some res \<Rightarrow> Some res | None \<Rightarrow> k st)"
| "m (Group n r) (p, s, c) k =
     m r (p, s, c) (\<lambda>(p', s', c'). k (p', s', c'(n \<mapsto> take (length s - length s') s)))"
| "m (Seq r1 r2) st k = m r1 st (\<lambda>st'. m r2 st' k)"
| "m (Alt r1 r2) st k = (case m r1 st k of Some res \<Rightarrow> Some res | None \<Rightarrow> m r2 st k)"
| "m Bol (p, s, c) k = (if p = None then k (p, s, c) else None)"
| "m Eol (p, s, c) k = (if s = [] then k (p, s, c) else None)"
| "m WordB (p, s, c) k =
     (if isWordO p \<noteq> isWordO (case s of [] \<Rightarrow> None | x # _ \<Rightarrow> Some x) then k (p, s, c) else None)"

definition seq :: "re list \<Rightarrow> re" where
  "seq rs = foldr Seq rs Eps"

definition alt :: "re list \<Rightarrow> re" where
  "alt rs = foldr Alt (butlast rs) (last rs)"

text \<open>A match: the text skipped before it, the matched text, the capture groups, and where
  the search goes on (the character before the rest, and the rest).\<close>

record rmatch =
  m_pre :: string
  m_text :: string
  m_groups :: caps
  m_prev :: "char option"
  m_rest :: string

text \<open>\<^verbatim>\<open>regex.exec(s)\<close> from the current position: the leftmost match.\<close>

fun search :: "re \<Rightarrow> string \<Rightarrow> char option \<Rightarrow> string \<Rightarrow> rmatch option" where
  "search r pre p s =
     (case m r (p, s, Map.empty) Some of
        Some (p', s', c) \<Rightarrow>
          Some \<lparr>m_pre = rev pre, m_text = take (length s - length s') s, m_groups = c,
                m_prev = p', m_rest = s'\<rparr>
      | None \<Rightarrow> (case s of [] \<Rightarrow> None | x # xs \<Rightarrow> search r (x # pre) (Some x) xs))"

definition exec :: "re \<Rightarrow> char option \<Rightarrow> string \<Rightarrow> rmatch option" where
  "exec r p s = search r [] p s"

text \<open>\<^verbatim>\<open>s.match(regex)\<close> and \<^verbatim>\<open>regex.test(s)\<close> for a regular expression without the flag
  \<^verbatim>\<open>g\<close>, and a capture group of a match that every match of its regular expression sets.\<close>

definition match :: "re \<Rightarrow> string \<Rightarrow> rmatch option" where
  "match r s = exec r None s"

definition test :: "re \<Rightarrow> string \<Rightarrow> bool" where
  "test r s = (match r s \<noteq> None)"

definition grp :: "rmatch \<Rightarrow> nat \<Rightarrow> string" where
  "grp mt n = (case m_groups mt n of None \<Rightarrow> [] | Some g \<Rightarrow> g)"

subsection \<open>Where a match ends\<close>

lemma lit_length:
  "lit cs p s = Some (p', s') \<Longrightarrow> length s' + length cs = length s"
  by (induction cs p s rule: lit.induct) (auto split: if_splits)

lemma star_cont:
  "star cc g p s c k = Some res \<Longrightarrow>
     \<exists>st'. k st' = Some res \<and> length (fst (snd st')) \<le> length s"
proof (induction s arbitrary: p)
  case Nil
  then show ?case by force
next
  case (Cons x xs)
  show ?case
  proof (cases "inClass cc x \<and> star cc g (Some x) xs c k = Some res")
    case True
    then obtain st' where "k st' = Some res" "length (fst (snd st')) \<le> length xs"
      using Cons.IH by blast
    then show ?thesis by (intro exI [of _ st']) simp
  next
    case False
    then have "k (p, x # xs, c) = Some res"
      using Cons.prems by (auto split: if_splits option.splits)
    then show ?thesis by (intro exI [of _ "(p, x # xs, c)"]) simp
  qed
qed

lemma m_cont:
  "m r (p, s, c) k = Some res \<Longrightarrow>
     \<exists>st'. k st' = Some res \<and> length (fst (snd st')) \<le> length s"
proof (induction r arbitrary: p s c k res)
  case Eps
  then show ?case by force
next
  case (Chars cs)
  then obtain p' s' where a: "lit cs p s = Some (p', s')" and b: "k (p', s', c) = Some res"
    by (auto split: option.splits)
  from lit_length [OF a] have "length s' \<le> length s" by simp
  with b show ?case by (intro exI [of _ "(p', s', c)"]) simp
next
  case (One cc)
  then obtain x xs where "s = x # xs" "k (Some x, xs, c) = Some res"
    by (auto split: list.splits if_splits)
  then show ?case by (intro exI [of _ "(Some x, xs, c)"]) simp
next
  case (Star cc g)
  then have "star cc g p s c k = Some res" by simp
  from star_cont [OF this] show ?case .
next
  case (Plus cc g)
  then obtain x xs where a: "s = x # xs" and b: "star cc g (Some x) xs c k = Some res"
    by (auto split: list.splits if_splits)
  from star_cont [OF b] obtain st' where "k st' = Some res" "length (fst (snd st')) \<le> length xs"
    by blast
  with a show ?case by (intro exI [of _ st']) simp
next
  case (Opt r)
  show ?case
  proof (cases "m r (p, s, c) k")
    case None
    with Opt.prems have "k (p, s, c) = Some res" by simp
    then show ?thesis by (intro exI [of _ "(p, s, c)"]) simp
  next
    case (Some a)
    with Opt.prems have "m r (p, s, c) k = Some res" by simp
    from Opt.IH [OF this] show ?thesis .
  qed
next
  case (Group n r)
  let ?k = "\<lambda>(p', s', c'). k (p', s', c'(n \<mapsto> take (length s - length s') s))"
  from Group.prems have "m r (p, s, c) ?k = Some res" by simp
  from Group.IH [OF this] obtain st' where a: "?k st' = Some res"
    and b: "length (fst (snd st')) \<le> length s" by blast
  obtain p' s' c' where st': "st' = (p', s', c')" by (cases st') auto
  from a b st' show ?case
    by (intro exI [of _ "(p', s', c'(n \<mapsto> take (length s - length s') s))"]) simp
next
  case (Seq r1 r2)
  from Seq.prems have "m r1 (p, s, c) (\<lambda>st'. m r2 st' k) = Some res" by simp
  from Seq.IH(1) [OF this] obtain st1 where
    a: "m r2 st1 k = Some res" and b: "length (fst (snd st1)) \<le> length s" by blast
  obtain p1 s1 c1 where st1: "st1 = (p1, s1, c1)" by (cases st1) auto
  from Seq.IH(2) [of p1 s1 c1 k res] a st1 obtain st' where
    "k st' = Some res" "length (fst (snd st')) \<le> length s1" by blast
  with b st1 show ?case by (intro exI [of _ st']) simp
next
  case (Alt r1 r2)
  show ?case
  proof (cases "m r1 (p, s, c) k")
    case None
    with Alt.prems have "m r2 (p, s, c) k = Some res" by simp
    from Alt.IH(2) [OF this] show ?thesis .
  next
    case (Some a)
    with Alt.prems have "m r1 (p, s, c) k = Some res" by simp
    from Alt.IH(1) [OF this] show ?thesis .
  qed
next
  case Bol
  then have "k (p, s, c) = Some res" by (auto split: if_splits)
  then show ?case by (intro exI [of _ "(p, s, c)"]) simp
next
  case Eol
  then have "k (p, s, c) = Some res" by (auto split: if_splits)
  then show ?case by (intro exI [of _ "(p, s, c)"]) simp
next
  case WordB
  then have "k (p, s, c) = Some res" by (auto split: if_splits)
  then show ?case by (intro exI [of _ "(p, s, c)"]) simp
qed

lemma search_rest:
  "search r pre p s = Some mt \<Longrightarrow>
     length (m_rest mt) \<le> length s \<and> (m_text mt \<noteq> [] \<longrightarrow> length (m_rest mt) < length s)"
proof (induction s arbitrary: pre p)
  case Nil
  show ?case
  proof (cases "m r (p, [], Map.empty) Some")
    case None
    with Nil show ?thesis by simp
  next
    case (Some st)
    obtain p' s' c' where st: "st = (p', s', c')" by (cases st) auto
    from Some st m_cont [of r p "[]" Map.empty Some st] have "s' = []" by auto
    with Some st Nil show ?thesis by auto
  qed
next
  case (Cons x xs)
  show ?case
  proof (cases "m r (p, x # xs, Map.empty) Some")
    case None
    with Cons.prems have "search r (x # pre) (Some x) xs = Some mt" by simp
    from Cons.IH [OF this] show ?thesis by auto
  next
    case (Some st)
    obtain p' s' c' where st: "st = (p', s', c')" by (cases st) auto
    from Some st m_cont [of r p "x # xs" Map.empty Some st]
    have "length s' \<le> length (x # xs)" by auto
    with Some st Cons.prems show ?thesis by auto
  qed
qed

lemma exec_rest:
  "exec r p s = Some mt \<Longrightarrow> m_text mt \<noteq> [] \<Longrightarrow> length (m_rest mt) < length s"
  "exec r p s = Some mt \<Longrightarrow> length (m_rest mt) \<le> length s"
  using search_rest [of r "[]" p s mt] by (auto simp: exec_def)

subsection \<open>Regular expressions with the flag g\<close>

text \<open>The loop \<^verbatim>\<open>while ((match = regex.exec(sql)) !== null)\<close> on a regular expression with
  the flag \<^verbatim>\<open>g\<close>, as the list of its matches. After an empty match the next call starts
  where this one did and finds the same match: the loop does not end.\<close>

function execAll :: "re \<Rightarrow> char option \<Rightarrow> string \<Rightarrow> rmatch list option" where
  "execAll r p s =
     (case exec r p s of
        None \<Rightarrow> Some []
      | Some mt \<Rightarrow>
          if m_text mt = [] then None
          else (case execAll r (m_prev mt) (m_rest mt) of
                  None \<Rightarrow> None
                | Some ms \<Rightarrow> Some (mt # ms)))"
  by pat_completeness auto
termination
  by (relation "measure (\<lambda>(r, p, s). length s)") (auto dest: exec_rest)

declare execAll.simps [simp del]

text \<open>\<^verbatim>\<open>s.replace(regex, rep)\<close> for a regular expression with the flag \<^verbatim>\<open>g\<close> and a
  replacement without \<^verbatim>\<open>$\<close>: after an empty match the search goes on one character
  further.\<close>

function replaceAll :: "re \<Rightarrow> string \<Rightarrow> char option \<Rightarrow> string \<Rightarrow> string" where
  "replaceAll r rep p s =
     (case exec r p s of
        None \<Rightarrow> s
      | Some mt \<Rightarrow>
          m_pre mt @ rep @
          (if m_text mt = [] then
             (case m_rest mt of [] \<Rightarrow> [] | x # xs \<Rightarrow> x # replaceAll r rep (Some x) xs)
           else replaceAll r rep (m_prev mt) (m_rest mt)))"
  by pat_completeness auto
termination
proof (relation "measure (\<lambda>(r, rep, p, s). length s)", goal_cases)
  case 1
  then show ?case by simp
next
  case (2 r rep p s mt x xs)
  from exec_rest(2) [OF 2(1)] 2(3) show ?case by simp
next
  case (3 r rep p s mt)
  from exec_rest(1) [OF 3(1) 3(2)] show ?case by simp
qed

declare replaceAll.simps [simp del]

definition replace :: "string \<Rightarrow> re \<Rightarrow> string \<Rightarrow> string" where
  "replace s r rep = replaceAll r rep None s"

section \<open>The schema\<close>

text \<open>The interfaces of \<^verbatim>\<open>types/index.ts\<close>. A field is prefixed with the initial of its
  interface. The optional fields \<^verbatim>\<open>isPrimary\<close>, \<^verbatim>\<open>isForeign\<close> and \<^verbatim>\<open>type\<close> (of an
  index) are always set by the parser.\<close>

record Column =
  c_name :: string
  c_type :: string
  c_nullable :: bool
  c_isPrimary :: bool
  c_isForeign :: bool

record ForeignKey =
  fk_column :: string
  fk_referencedTable :: string
  fk_referencedColumn :: string

record Index =
  i_name :: string
  i_columns :: "string list"
  i_isUnique :: bool
  i_type :: string

record Table =
  t_name :: string
  t_columns :: "Column list"
  t_primaryKeys :: "string list"
  t_foreignKeys :: "ForeignKey list"
  t_indexes :: "Index list"

record Relationship =
  r_id :: string
  r_from :: string
  r_to :: string
  r_fromColumn :: string
  r_toColumn :: string

record Schema =
  tables :: "Table list"
  relationships :: "Relationship list"

section \<open>The regular expressions of the parser\<close>

definition ws0 :: re where "ws0 = Star (Pos [ASpace]) True"
definition ws1 :: re where "ws1 = Plus (Pos [ASpace]) True"
definition word1 :: re where "word1 = Plus (Pos [AWord]) True"

text \<open>\<^verbatim>\<open>(?:IF\s+NOT\s+EXISTS\s+)?\<close>\<close>

definition ifNotExists :: re where
  "ifNotExists = Opt (seq [Chars ''IF'', ws1, Chars ''NOT'', ws1, Chars ''EXISTS'', ws1])"

text \<open>\<^verbatim>\<open>/CREATE\s+TABLE\s+(?:IF\s+NOT\s+EXISTS\s+)?(?:public\.)?(\w+)\s*\(([\s\S]*?)\);/gi\<close>\<close>

definition createTableRegex :: re where
  "createTableRegex = seq [Chars ''CREATE'', ws1, Chars ''TABLE'', ws1, ifNotExists,
     Opt (Chars ''public.''), Group 1 word1, ws0, Chars ''('',
     Group 2 (Star (Pos [ASpace, ANotSpace]) False), Chars '');'']"

text \<open>\<^verbatim>\<open>/CREATE\s+(?:(UNIQUE)\s+)?INDEX\s+(?:IF\s+NOT\s+EXISTS\s+)?(\w+)\s+ON\s+(?:public\.)?(\w+)\s*\(\s*([^)]+)\s*\)/gi\<close>\<close>

definition indexRegex :: re where
  "indexRegex = seq [Chars ''CREATE'', ws1, Opt (seq [Group 1 (Chars ''UNIQUE''), ws1]),
     Chars ''INDEX'', ws1, ifNotExists, Group 2 word1, ws1, Chars ''ON'', ws1,
     Opt (Chars ''public.''), Group 3 word1, ws0, Chars ''('', ws0,
     Group 4 (Plus (Neg [AChar CHR '')'']) True), ws0, Chars '')'']"

text \<open>\<^verbatim>\<open>/["`']/g\<close>\<close>

definition quoteRegex :: re where
  "quoteRegex = One (Pos [AChar CHR 0x22, AChar CHR 0x60, AChar CHR 0x27])"

text \<open>\<^verbatim>\<open>/^\s*PRIMARY\s+KEY\s*\(/i\<close> and \<^verbatim>\<open>/PRIMARY\s+KEY\s*\(\s*([^)]+)\s*\)/i\<close>\<close>

definition pkHeadRegex :: re where
  "pkHeadRegex = seq [Bol, ws0, Chars ''PRIMARY'', ws1, Chars ''KEY'', ws0, Chars ''('']"

definition pkRegex :: re where
  "pkRegex = seq [Chars ''PRIMARY'', ws1, Chars ''KEY'', ws0, Chars ''('', ws0,
     Group 1 (Plus (Neg [AChar CHR '')'']) True), ws0, Chars '')'']"

text \<open>\<^verbatim>\<open>(?:\w+\.)?\<close>\<close>

definition qualifier :: re where
  "qualifier = Opt (seq [word1, Chars ''.''])"

text \<open>\<^verbatim>\<open>REFERENCES\s+(?:\w+\.)?(\w+)\s*\(\s*(\w+)\s*\)\<close>, with the numbers of its two groups.\<close>

definition referencesTail :: "nat \<Rightarrow> nat \<Rightarrow> re list" where
  "referencesTail i j = [Chars ''REFERENCES'', ws1, qualifier,
     Group i word1, ws0, Chars ''('', ws0, Group j word1, ws0, Chars '')'']"

text \<open>\<^verbatim>\<open>/(\w+)\s+[^,]*REFERENCES\s+(?:\w+\.)?(\w+)\s*\(\s*(\w+)\s*\)/i\<close>\<close>

definition inlineFkRegex :: re where
  "inlineFkRegex = seq ([Group 1 word1, ws1, Star (Neg [AChar CHR '','']) True] @ referencesTail 2 3)"

text \<open>\<^verbatim>\<open>/(?:CONSTRAINT\s+\w+\s+)?FOREIGN\s+KEY\s*\(\s*(\w+)\s*\)\s+REFERENCES\s+(?:\w+\.)?(\w+)\s*\(\s*(\w+)\s*\)/i\<close>\<close>

definition constraintName :: re where
  "constraintName = Opt (seq [Chars ''CONSTRAINT'', ws1, word1, ws1])"

definition tableLevelFkRegex :: re where
  "tableLevelFkRegex = seq ([constraintName, Chars ''FOREIGN'', ws1, Chars ''KEY'', ws0,
     Chars ''('', ws0, Group 1 word1, ws0, Chars '')'', ws1] @ referencesTail 2 3)"

text \<open>\<^verbatim>\<open>/^(\w+)\s+(.+)$/i\<close>\<close>

definition columnRegex :: re where
  "columnRegex = seq [Bol, Group 1 word1, ws1, Group 2 (Plus Dot True), Eol]"

text \<open>\<^verbatim>\<open>/PRIMARY\s+KEY/i\<close> and \<^verbatim>\<open>/NOT\s+NULL/i\<close>\<close>

definition primaryKeyRegex :: re where
  "primaryKeyRegex = seq [Chars ''PRIMARY'', ws1, Chars ''KEY'']"

definition notNullRegex :: re where
  "notNullRegex = seq [Chars ''NOT'', ws1, Chars ''NULL'']"

text \<open>\<^verbatim>\<open>/\s*(PRIMARY\s+KEY|NOT\s+NULL|NULL|UNIQUE|DEFAULT\s+[^,\s]*|REFERENCES\s+\w+\s*\([^)]+\)[^,]*).*/gi\<close>\<close>

definition typeTailRegex :: re where
  "typeTailRegex = seq [ws0,
     Group 1 (alt [primaryKeyRegex, notNullRegex, Chars ''NULL'', Chars ''UNIQUE'',
       seq [Chars ''DEFAULT'', ws1, Star (Neg [AChar CHR '','', ASpace]) True],
       seq [Chars ''REFERENCES'', ws1, word1, ws0, Chars ''('',
            Plus (Neg [AChar CHR '')'']) True, Chars '')'', Star (Neg [AChar CHR '','']) True]]),
     Star Dot True]"

text \<open>\<^verbatim>\<open>/\s+/g\<close>\<close>

definition spacesRegex :: re where
  "spacesRegex = ws1"

text \<open>\<^verbatim>\<open>/REFERENCES\s+(?:\w+\.)?(\w+)\s*\(\s*(\w+)\s*\)/i\<close>\<close>

definition referencesRegex :: re where
  "referencesRegex = seq (referencesTail 1 2)"

text \<open>\<^verbatim>\<open>\s*\(\s*([^\)]+)\s*\)\s+REFERENCES\s+(?:\w+\.)?(\w+)\s*\(\s*([^\)]+)\s*\)\<close>, the end of
  both regular expressions for ALTER TABLE.\<close>

definition alterTail :: "re list" where
  "alterTail = [Chars ''FOREIGN'', ws1, Chars ''KEY'', ws0, Chars ''('', ws0,
     Group 2 (Plus (Neg [AChar CHR '')'']) True), ws0, Chars '')'', ws1,
     Chars ''REFERENCES'', ws1, qualifier, Group 3 word1, ws0,
     Chars ''('', ws0, Group 4 (Plus (Neg [AChar CHR '')'']) True), ws0, Chars '')'']"

text \<open>\<^verbatim>\<open>ALTER\s+TABLE\s+(?:IF\s+NOT\s+EXISTS\s+)?(?:\w+\.)?(\w+)\s+ADD\s+\<close>, their start.\<close>

definition alterHead :: "re list" where
  "alterHead = [Chars ''ALTER'', ws1, Chars ''TABLE'', ws1, ifNotExists,
     qualifier, Group 1 word1, ws1, Chars ''ADD'', ws1]"

text \<open>\<^verbatim>\<open>/ALTER\s+TABLE\s+(?:IF\s+NOT\s+EXISTS\s+)?(?:\w+\.)?(\w+)\s+ADD\s+(?:CONSTRAINT\s+\w+\s+)?FOREIGN\s+KEY\s*\(\s*([^\)]+)\s*\)\s+REFERENCES\s+(?:\w+\.)?(\w+)\s*\(\s*([^\)]+)\s*\)/gi\<close>
  and the second one, the same without \<^verbatim>\<open>(?:CONSTRAINT\s+\w+\s+)?\<close>.\<close>

definition alterFkRegex :: re where
  "alterFkRegex = seq (alterHead @ [constraintName] @ alterTail)"

definition alterFkRegex2 :: re where
  "alterFkRegex2 = seq (alterHead @ alterTail)"

section \<open>The parser\<close>

text \<open>\<^verbatim>\<open>str.split(',').map(col => col.trim().replace(/["`']/g, ''))\<close>\<close>

definition cleanNames :: "string \<Rightarrow> string list" where
  "cleanNames str = map (\<lambda>col. replace (trim col) quoteRegex []) (split CHR '','' str)"

text \<open>\<^verbatim>\<open>xs.findIndex(pred)\<close>: \<^verbatim>\<open>xs.find(pred)\<close> is the element there.\<close>

fun findIndex :: "('a \<Rightarrow> bool) \<Rightarrow> 'a list \<Rightarrow> nat option" where
  "findIndex pred [] = None"
| "findIndex pred (x # xs) =
     (if pred x then Some 0 else map_option Suc (findIndex pred xs))"

subsection \<open>extractIndexes and associateIndexesWithTables\<close>

definition indexOfMatch :: "rmatch \<Rightarrow> string \<times> Index" where
  "indexOfMatch mt =
     (let isUnique = (case m_groups mt 1 of None \<Rightarrow> False | Some u \<Rightarrow> u \<noteq> []);
          indexName = grp mt 2;
          tableName = grp mt 3;
          columnsStr = grp mt 4;
          columns = cleanNames columnsStr
      in (tableName,
          \<lparr>i_name = indexName, i_columns = columns, i_isUnique = isUnique, i_type = ''BTREE''\<rparr>))"

definition extractIndexes :: "string \<Rightarrow> (string \<times> Index) list option" where
  "extractIndexes sql = map_option (map indexOfMatch) (execAll indexRegex None sql)"

definition sameName :: "string \<Rightarrow> string \<Rightarrow> bool" where
  "sameName a b = (toLowerCase a = toLowerCase b)"

definition associateIndex :: "Table list \<Rightarrow> string \<times> Index \<Rightarrow> Table list" where
  "associateIndex tbls e =
     (case findIndex (\<lambda>t. sameName (t_name t) (fst e)) tbls of
        None \<Rightarrow> tbls
      | Some i \<Rightarrow> tbls [i := (tbls ! i)\<lparr>t_indexes := t_indexes (tbls ! i) @ [snd e]\<rparr>])"

definition associateIndexesWithTables :: "Table list \<Rightarrow> (string \<times> Index) list \<Rightarrow> Table list" where
  "associateIndexesWithTables tbls indexes = foldl associateIndex tbls indexes"

subsection \<open>extractCreateTableStatements and preprocessPostgreSQL\<close>

definition extractCreateTableStatements :: "string \<Rightarrow> string list option" where
  "extractCreateTableStatements sql =
     map_option (\<lambda>ms. filter (\<lambda>fullStatement. endsWith (trim fullStatement) '');'') (map m_text ms))
       (execAll createTableRegex None sql)"

text \<open>The substitutions of preprocessPostgreSQL, one regular expression each,
  from \<^verbatim>\<open>/IF NOT EXISTS/gi\<close> to \<^verbatim>\<open>/\/\*[\s\S]*?\*\//g\<close>.\<close>

definition wordRegex :: "string \<Rightarrow> re" where
  "wordRegex w = seq [WordB, Chars w, WordB]"

definition lineCommentRegex :: re where
  "lineCommentRegex = seq [Chars ''--'', Star (Neg [AChar CHR 0x0D, AChar CHR 0x0A]) True]"

definition blockCommentRegex :: re where
  "blockCommentRegex = seq [Chars ''/*'', Star (Pos [ASpace, ANotSpace]) False, Chars ''*/'']"

definition preprocessPostgreSQL :: "string \<Rightarrow> string option" where
  "preprocessPostgreSQL sql =
     (case extractCreateTableStatements sql of
        None \<Rightarrow> None
      | Some createTableStatements \<Rightarrow>
          (let processed = join [CHR 0x0A, CHR 0x0A] createTableStatements;
               processed = (if trim processed = [] then sql else processed);
               processed = replace processed (Chars ''IF NOT EXISTS'') [];
               processed = replace processed (Chars ''public.'') [];
               processed = replace processed (wordRegex ''bigserial'') ''BIGINT AUTO_INCREMENT'';
               processed = replace processed (wordRegex ''serial'') ''INT AUTO_INCREMENT'';
               processed = replace processed (wordRegex ''TEXT'') ''VARCHAR(65535)'';
               processed = replace processed (wordRegex ''JSONB'') ''JSON'';
               processed = replace processed (wordRegex ''TIMESTAMP WITH TIME ZONE'') ''TIMESTAMP'';
               processed = replace processed (wordRegex ''TIMESTAMP WITHOUT TIME ZONE'') ''TIMESTAMP'';
               processed = replace processed lineCommentRegex [];
               processed = replace processed blockCommentRegex [];
               processed = trim (replace processed spacesRegex '' '')
           in Some processed))"

subsection \<open>splitByCommaRespectingParentheses\<close>

fun splitLoop :: "string \<Rightarrow> string list \<Rightarrow> string \<Rightarrow> int \<Rightarrow> string list" where
  "splitLoop [] result current parenthesesCount =
     (if trim current \<noteq> [] then result @ [trim current] else result)"
| "splitLoop (char # text) result current parenthesesCount =
     (if char = CHR ''('' then splitLoop text result (current @ [char]) (parenthesesCount + 1)
      else if char = CHR '')'' then splitLoop text result (current @ [char]) (parenthesesCount - 1)
      else if char = CHR '','' \<and> parenthesesCount = 0 then
        splitLoop text (result @ [trim current]) [] parenthesesCount
      else splitLoop text result (current @ [char]) parenthesesCount)"

definition splitByCommaRespectingParentheses :: "string \<Rightarrow> string list" where
  "splitByCommaRespectingParentheses text = splitLoop text [] [] 0"

subsection \<open>parseTableDefinitionRegex\<close>

text \<open>The three arrays the loop over the clauses fills.\<close>

type_synonym tacc = "Column list \<times> string list \<times> ForeignKey list"

text \<open>The third branch of the loop, a column definition \<^verbatim>\<open>columnName rest\<close>.\<close>

definition parseColumn :: "string \<Rightarrow> string \<Rightarrow> tacc \<Rightarrow> tacc" where
  "parseColumn columnName rest acc =
     (case acc of (columns, primaryKeys, foreignKeys) \<Rightarrow>
       (let hasPrimaryKey = test primaryKeyRegex rest;
            hasNotNull = test notNullRegex rest;
            columnType = trim (replace rest typeTailRegex []);
            columnType = (if columnType = rest then replace rest spacesRegex '' '' else columnType);
            serial = (if includesStr (toLowerCase columnType) (toLowerCase ''bigserial'') then Some ''BIGINT''
                      else if includesStr (toLowerCase columnType) (toLowerCase ''serial'') then Some ''INT''
                      else None);
            columnType = (case serial of None \<Rightarrow> columnType | Some t \<Rightarrow> t);
            primaryKeys = (case serial of None \<Rightarrow> primaryKeys | Some t \<Rightarrow> primaryKeys @ [columnName]);
            isPrimary = (hasPrimaryKey \<or> columnName \<in> set primaryKeys);
            primaryKeys = (if isPrimary \<and> columnName \<notin> set primaryKeys
                           then primaryKeys @ [columnName] else primaryKeys);
            foreignKeys = (case match referencesRegex rest of
                             None \<Rightarrow> foreignKeys
                           | Some referencesMatch \<Rightarrow>
                               foreignKeys @ [\<lparr>fk_column = columnName,
                                 fk_referencedTable = grp referencesMatch 1,
                                 fk_referencedColumn = grp referencesMatch 2\<rparr>]);
            isForeign = list_ex (\<lambda>fk. fk_column fk = columnName) foreignKeys
        in (columns @ [\<lparr>c_name = columnName, c_type = columnType, c_nullable = (\<not> hasNotNull),
                         c_isPrimary = isPrimary, c_isForeign = isForeign\<rparr>],
            primaryKeys, foreignKeys)))"

text \<open>The body of the loop \<^verbatim>\<open>for (const line of lines)\<close>.\<close>

definition parseLine :: "tacc \<Rightarrow> string \<Rightarrow> tacc" where
  "parseLine acc line =
     (case acc of (columns, primaryKeys, foreignKeys) \<Rightarrow>
       if (includesStr line ''CONSTRAINT'' \<and> includesStr line ''PRIMARY KEY'')
          \<or> match pkHeadRegex line \<noteq> None then
         (case match pkRegex line of
            None \<Rightarrow> acc
          | Some pkMatch \<Rightarrow> (columns, primaryKeys @ cleanNames (grp pkMatch 1), foreignKeys))
       else if includesStr line ''REFERENCES'' then
         (case match inlineFkRegex line of
            Some fkMatch \<Rightarrow>
              (columns, primaryKeys,
               foreignKeys @ [\<lparr>fk_column = grp fkMatch 1, fk_referencedTable = grp fkMatch 2,
                                fk_referencedColumn = grp fkMatch 3\<rparr>])
          | None \<Rightarrow>
              (case match tableLevelFkRegex line of
                 Some tableLevelFkMatch \<Rightarrow>
                   (columns, primaryKeys,
                    foreignKeys @ [\<lparr>fk_column = grp tableLevelFkMatch 1,
                                     fk_referencedTable = grp tableLevelFkMatch 2,
                                     fk_referencedColumn = grp tableLevelFkMatch 3\<rparr>])
               | None \<Rightarrow> acc))
       else if \<not> includesStr line ''CONSTRAINT'' then
         (case match columnRegex line of
            None \<Rightarrow> acc
          | Some columnMatch \<Rightarrow> parseColumn (grp columnMatch 1) (trim (grp columnMatch 2)) acc)
       else acc)"

text \<open>\<^verbatim>\<open>columns.forEach(column => ...)\<close>, the pass that marks the key columns.\<close>

definition markKeys :: "string list \<Rightarrow> ForeignKey list \<Rightarrow> Column \<Rightarrow> Column" where
  "markKeys primaryKeys foreignKeys column =
     (let column = (if c_name column \<in> set primaryKeys then column\<lparr>c_isPrimary := True\<rparr> else column)
      in if list_ex (\<lambda>fk. fk_column fk = c_name column) foreignKeys
         then column\<lparr>c_isForeign := True\<rparr> else column)"

text \<open>Nothing in the body of parseTableDefinitionRegex throws, so it never returns null.\<close>

definition parseTableDefinitionRegex :: "string \<Rightarrow> string \<Rightarrow> Table option" where
  "parseTableDefinitionRegex tableName definition =
     (let lines = splitByCommaRespectingParentheses definition;
          acc = foldl parseLine ([], [], []) lines
      in case acc of (columns, primaryKeys, foreignKeys) \<Rightarrow>
           Some \<lparr>t_name = tableName, t_columns = map (markKeys primaryKeys foreignKeys) columns,
                  t_primaryKeys = primaryKeys, t_foreignKeys = foreignKeys, t_indexes = []\<rparr>)"

subsection \<open>extractRelationshipsRegex\<close>

definition relationshipId :: "string \<Rightarrow> string \<Rightarrow> nat \<Rightarrow> string" where
  "relationshipId from to n = from @ ''-'' @ to @ ''-'' @ showNat n"

definition pushRelationship :: "string \<Rightarrow> Relationship list \<Rightarrow> ForeignKey \<Rightarrow> Relationship list" where
  "pushRelationship tableName rels fk =
     rels @ [\<lparr>r_id = relationshipId tableName (fk_referencedTable fk) (length rels),
              r_from = tableName, r_to = fk_referencedTable fk,
              r_fromColumn = fk_column fk, r_toColumn = fk_referencedColumn fk\<rparr>]"

definition extractRelationshipsRegex :: "Table \<Rightarrow> Relationship list \<Rightarrow> string \<Rightarrow> Relationship list" where
  "extractRelationshipsRegex table rels definition =
     foldl (pushRelationship (t_name table)) rels (t_foreignKeys table)"

subsection \<open>parseAlterTableForeignKeys\<close>

text \<open>The state of the pass: the tables and the relationships, both updated in place by
  the source.\<close>

type_synonym pstate = "Table list \<times> Relationship list"

text \<open>\<^verbatim>\<open>const col = table.columns.find(...); if (col) col.isForeign = true\<close>\<close>

definition markForeign :: "string \<Rightarrow> Column list \<Rightarrow> Column list" where
  "markForeign fromColumn columns =
     (case findIndex (\<lambda>c. sameName (c_name c) fromColumn) columns of
        None \<Rightarrow> columns
      | Some j \<Rightarrow> columns [j := (columns ! j)\<lparr>c_isForeign := True\<rparr>])"

text \<open>One round of the loop \<^verbatim>\<open>for (let i = 0; i < count; i++)\<close>, on the table at index
  \<open>ti\<close> of the list.\<close>

definition addAlterFk :: "nat \<Rightarrow> string \<Rightarrow> pstate \<Rightarrow> string \<times> string \<Rightarrow> pstate" where
  "addAlterFk ti refTable st cols =
     (case st of (tbls, rels) \<Rightarrow>
       (case cols of (fromColumn, toColumn) \<Rightarrow>
         (let table = tbls ! ti;
              table = table\<lparr>t_foreignKeys := t_foreignKeys table @
                        [\<lparr>fk_column = fromColumn, fk_referencedTable = refTable,
                          fk_referencedColumn = toColumn\<rparr>]\<rparr>;
              table = table\<lparr>t_columns := markForeign fromColumn (t_columns table)\<rparr>
          in (tbls [ti := table],
              rels @ [\<lparr>r_id = relationshipId (t_name table) refTable (length rels),
                       r_from = t_name table, r_to = refTable,
                       r_fromColumn = fromColumn, r_toColumn = toColumn\<rparr>]))))"

text \<open>The body of both \<^verbatim>\<open>while\<close> loops, for one match. The columns are paired by index up
  to the shorter list.\<close>

definition applyAlterFk :: "pstate \<Rightarrow> rmatch \<Rightarrow> pstate" where
  "applyAlterFk st mt =
     (let tableName = grp mt 1;
          fromCols = cleanNames (grp mt 2);
          refTable = grp mt 3;
          toCols = cleanNames (grp mt 4)
      in case findIndex (\<lambda>t. sameName (t_name t) tableName) (fst st) of
           None \<Rightarrow> st
         | Some ti \<Rightarrow> foldl (addAlterFk ti refTable) st (zip fromCols toCols))"

definition parseAlterTableForeignKeys :: "string \<Rightarrow> pstate \<Rightarrow> pstate option" where
  "parseAlterTableForeignKeys sql st =
     (case execAll alterFkRegex None sql of
        None \<Rightarrow> None
      | Some ms1 \<Rightarrow>
          (case execAll alterFkRegex2 None sql of
             None \<Rightarrow> None
           | Some ms2 \<Rightarrow> Some (foldl applyAlterFk (foldl applyAlterFk st ms1) ms2)))"

subsection \<open>fallbackRegexParsing and parseSQL\<close>

text \<open>The body of the loop over the CREATE TABLE statements.\<close>

definition addTable :: "pstate \<Rightarrow> rmatch \<Rightarrow> pstate" where
  "addTable st mt =
     (let tableName = grp mt 1;
          tableDefinition = grp mt 2
      in case parseTableDefinitionRegex tableName tableDefinition of
           None \<Rightarrow> st
         | Some table \<Rightarrow>
             (fst st @ [table], extractRelationshipsRegex table (snd st) tableDefinition))"

definition fallbackRegexParsing :: "string \<Rightarrow> Schema option" where
  "fallbackRegexParsing sql =
     (case extractIndexes sql of
        None \<Rightarrow> None
      | Some indexes \<Rightarrow>
          (case execAll createTableRegex None sql of
             None \<Rightarrow> None
           | Some ms \<Rightarrow>
               (case parseAlterTableForeignKeys sql (foldl addTable ([], []) ms) of
                  None \<Rightarrow> None
                | Some (tbls, rels) \<Rightarrow>
                    Some \<lparr>tables = associateIndexesWithTables tbls indexes,
                           relationships = rels\<rparr>)))"

text \<open>The \<^verbatim>\<open>try\<close> block of parseSQL: it computes the indexes and the preprocessed text,
  drops both and throws.\<close>

datatype error = Error string | TypeError

definition parseSQL_try :: "string \<Rightarrow> (error + Schema) option" where
  "parseSQL_try sql =
     (case extractIndexes sql of
        None \<Rightarrow> None
      | Some indexes \<Rightarrow>
          (case preprocessPostgreSQL sql of
             None \<Rightarrow> None
           | Some preprocessedSQL \<Rightarrow> Some (Inl (Error ''Forcing regex parsing for PostgreSQL schema''))))"

definition parseSQL :: "string \<Rightarrow> Schema option" where
  "parseSQL sql =
     (case parseSQL_try sql of
        None \<Rightarrow> None
      | Some (Inl error) \<Rightarrow> fallbackRegexParsing sql
      | Some (Inr schema) \<Rightarrow> Some schema)"

section \<open>Numbers\<close>

text \<open>
  A number of the language is a binary64 floating-point number: a finite value, an infinity
  or NaN. A finite number is the rational it stands for, and an arithmetic operation rounds
  its exact result to the nearest number, a tie to the even mantissa, and to an infinity
  beyond the largest number. The two zeros are one number: they compare equal, and the
  functions here divide by the literal 2 and by a square root only, which is never the
  negative zero.
\<close>

datatype jsnum = Fin rat | PInf | NInf | NaN

text \<open>Two to the power e, and the exponent of a positive rational x: the integer k with
  \<open>pow2 k \<le> x < pow2 (k + 1)\<close>, found by halving or doubling.\<close>

definition pow2 :: "int \<Rightarrow> rat" where
  "pow2 e = power_int 2 e"

function up :: "rat \<Rightarrow> nat" where
  "up x = (if x < 2 then 0 else Suc (up (x / 2)))"
  by pat_completeness auto
termination
proof (relation "measure (\<lambda>x. nat \<lfloor>x\<rfloor>)", goal_cases)
  case 1
  then show ?case by simp
next
  case (2 x)
  then have "\<lfloor>x / 2\<rfloor> < \<lfloor>x\<rfloor>" by linarith
  moreover from 2 have "0 < \<lfloor>x\<rfloor>" by linarith
  ultimately show ?case by simp
qed

function down :: "rat \<Rightarrow> nat" where
  "down x = (if x \<le> 0 \<or> 1 \<le> x then 0 else Suc (down (2 * x)))"
  by pat_completeness auto
termination
proof (relation "measure (\<lambda>x. nat \<lfloor>1 / x\<rfloor>)", goal_cases)
  case 1
  then show ?case by simp
next
  case (2 x)
  then have x: "0 < x" "x < 1" by auto
  then have "1 < 1 / x" by simp
  define y where "y = 1 / x"
  have half: "1 / (2 * x) = y / 2" by (simp add: y_def)
  from \<open>1 < 1 / x\<close> have "1 < y" by (simp add: y_def)
  then have pos: "1 \<le> \<lfloor>y\<rfloor>" by (simp add: le_floor_iff)
  then have "(1::rat) \<le> of_int \<lfloor>y\<rfloor>" by linarith
  moreover have "y < of_int \<lfloor>y\<rfloor> + 1" by linarith
  ultimately have "y / 2 < of_int \<lfloor>y\<rfloor>" by linarith
  then have "\<lfloor>y / 2\<rfloor> < \<lfloor>y\<rfloor>" by (simp add: floor_less_iff)
  with pos show ?case by (simp add: half) (simp add: y_def)
qed

declare up.simps [simp del] down.simps [simp del]

definition ilog2 :: "rat \<Rightarrow> int" where
  "ilog2 x = (if 1 \<le> x then int (up x) else - int (down x))"

text \<open>The nearest integer, a tie going to the even one.\<close>

definition nearestEven :: "rat \<Rightarrow> int" where
  "nearestEven y =
     (let f = \<lfloor>y\<rfloor>; d = y - of_int f
      in if d < 1 / 2 then f else if 1 / 2 < d then f + 1 else if even f then f else f + 1)"

text \<open>The exponent of the unit in the last place of a number: 52 below the exponent of
  the number (a mantissa has 53 bits), and - 1074 for the subnormal numbers.\<close>

definition ulpExp :: "rat \<Rightarrow> int" where
  "ulpExp x = max (ilog2 \<bar>x\<bar> - 52) (- 1074)"

text \<open>Rounding to the nearest number. A value that rounds to \<open>pow2 1024\<close> or beyond gives
  an infinity.\<close>

definition round64 :: "rat \<Rightarrow> jsnum" where
  "round64 x =
     (if x = 0 then Fin 0
      else (let e = ulpExp x; r = of_int (nearestEven (x / pow2 e)) * pow2 e
            in if pow2 1024 \<le> \<bar>r\<bar> then (if 0 < x then PInf else NInf) else Fin r))"

text \<open>The rationals that are numbers, and a decimal literal of the source text, which is
  the number nearest to it.\<close>

definition isDouble :: "rat \<Rightarrow> bool" where
  "isDouble x = (round64 x = Fin x)"

definition literal :: "rat \<Rightarrow> jsnum" where
  "literal q = round64 q"

definition jinf :: "bool \<Rightarrow> jsnum" where
  "jinf positive = (if positive then PInf else NInf)"

fun jneg :: "jsnum \<Rightarrow> jsnum" where
  "jneg (Fin a) = Fin (- a)"
| "jneg PInf = NInf"
| "jneg NInf = PInf"
| "jneg NaN = NaN"

fun jadd :: "jsnum \<Rightarrow> jsnum \<Rightarrow> jsnum" where
  "jadd (Fin a) (Fin b) = round64 (a + b)"
| "jadd NaN b = NaN"
| "jadd a NaN = NaN"
| "jadd PInf NInf = NaN"
| "jadd NInf PInf = NaN"
| "jadd PInf b = PInf"
| "jadd NInf b = NInf"
| "jadd a PInf = PInf"
| "jadd a NInf = NInf"

definition jsub :: "jsnum \<Rightarrow> jsnum \<Rightarrow> jsnum" where
  "jsub a b = jadd a (jneg b)"

fun jmul :: "jsnum \<Rightarrow> jsnum \<Rightarrow> jsnum" where
  "jmul (Fin a) (Fin b) = round64 (a * b)"
| "jmul NaN b = NaN"
| "jmul a NaN = NaN"
| "jmul (Fin a) PInf = (if a = 0 then NaN else jinf (0 < a))"
| "jmul (Fin a) NInf = (if a = 0 then NaN else jinf (a < 0))"
| "jmul PInf (Fin b) = (if b = 0 then NaN else jinf (0 < b))"
| "jmul NInf (Fin b) = (if b = 0 then NaN else jinf (b < 0))"
| "jmul PInf PInf = PInf"
| "jmul PInf NInf = NInf"
| "jmul NInf PInf = NInf"
| "jmul NInf NInf = PInf"

fun jdiv :: "jsnum \<Rightarrow> jsnum \<Rightarrow> jsnum" where
  "jdiv (Fin a) (Fin b) =
     (if b = 0 then (if a = 0 then NaN else jinf (0 < a)) else round64 (a / b))"
| "jdiv NaN b = NaN"
| "jdiv a NaN = NaN"
| "jdiv (Fin a) b = Fin 0"
| "jdiv PInf (Fin b) = jinf (0 \<le> b)"
| "jdiv NInf (Fin b) = jinf (b < 0)"
| "jdiv a b = NaN"

text \<open>\<^verbatim>\<open>Math.sqrt\<close>: the integer square root, and the square root of a number rounded to
  the nearest number. The root of a number with the exponent k has the exponent k div 2,
  and lies between two neighbouring multiples of its unit in the last place; it is never
  subnormal and never overflows.\<close>

function isqrt :: "nat \<Rightarrow> nat" where
  "isqrt n =
     (if n < 2 then n
      else (let r = 2 * isqrt (n div 4) in if (r + 1) * (r + 1) \<le> n then r + 1 else r))"
  by pat_completeness auto
termination
  by (relation "measure id") auto

declare isqrt.simps [simp del]

definition sqrt64 :: "rat \<Rightarrow> jsnum" where
  "sqrt64 a =
     (if a < 0 then NaN
      else if a = 0 then Fin 0
      else (let e = ilog2 a div 2 - 52;
                q = a / pow2 (2 * e);
                f = int (isqrt (nat \<lfloor>q\<rfloor>));
                h = (of_int f + 1 / 2) * (of_int f + 1 / 2);
                m = (if q < h then f else if h < q then f + 1 else if even f then f else f + 1)
            in Fin (of_int m * pow2 e)))"

fun jsqrt :: "jsnum \<Rightarrow> jsnum" where
  "jsqrt (Fin a) = sqrt64 a"
| "jsqrt PInf = PInf"
| "jsqrt NInf = NaN"
| "jsqrt NaN = NaN"

fun jabs :: "jsnum \<Rightarrow> jsnum" where
  "jabs (Fin a) = Fin \<bar>a\<bar>"
| "jabs PInf = PInf"
| "jabs NInf = PInf"
| "jabs NaN = NaN"

text \<open>\<^verbatim>\<open>a < b\<close>, \<^verbatim>\<open>a > b\<close> and \<^verbatim>\<open>a >= b\<close>\<close>

fun jlt :: "jsnum \<Rightarrow> jsnum \<Rightarrow> bool" where
  "jlt (Fin a) (Fin b) = (a < b)"
| "jlt NaN b = False"
| "jlt a NaN = False"
| "jlt a NInf = False"
| "jlt PInf b = False"
| "jlt a b = True"

definition jgt :: "jsnum \<Rightarrow> jsnum \<Rightarrow> bool" where
  "jgt a b = jlt b a"

fun jge :: "jsnum \<Rightarrow> jsnum \<Rightarrow> bool" where
  "jge NaN b = False"
| "jge a NaN = False"
| "jge a b = (\<not> jlt a b)"

text \<open>An index or a length of an array as a number: an integer below \<open>2 ^ 32\<close>.\<close>

definition num :: "nat \<Rightarrow> jsnum" where
  "num n = Fin (of_nat n)"

section \<open>The edge router\<close>

record XYPosition =
  xy_x :: jsnum
  xy_y :: jsnum

text \<open>A node of the diagram: its id and its position, which the function tests for.\<close>

record Node =
  n_id :: string
  n_position :: "XYPosition option"

record ConnectionPoint =
  sourceHandle :: string
  targetHandle :: string

definition nodeWidth :: jsnum where "nodeWidth = Fin 300"
definition nodeHeight :: jsnum where "nodeHeight = Fin 200"

definition calculateOptimalConnection :: "Node \<Rightarrow> Node \<Rightarrow> ConnectionPoint" where
  "calculateOptimalConnection sourceNode targetNode =
     (case (n_position sourceNode, n_position targetNode) of
        (Some sourcePos, Some targetPos) \<Rightarrow>
          (let sourceCenterX = jadd (xy_x sourcePos) (jdiv nodeWidth (Fin 2));
               sourceCenterY = jadd (xy_y sourcePos) (jdiv nodeHeight (Fin 2));
               targetCenterX = jadd (xy_x targetPos) (jdiv nodeWidth (Fin 2));
               targetCenterY = jadd (xy_y targetPos) (jdiv nodeHeight (Fin 2));
               deltaX = jsub targetCenterX sourceCenterX;
               deltaY = jsub targetCenterY sourceCenterY;
               absX = jabs deltaX;
               absY = jabs deltaY
           in if jgt absX absY then
                (if jgt deltaX (Fin 0) then
                   \<lparr>sourceHandle = n_id sourceNode @ ''-source-right'',
                    targetHandle = n_id targetNode @ ''-target-left''\<rparr>
                 else
                   \<lparr>sourceHandle = n_id sourceNode @ ''-source-left'',
                    targetHandle = n_id targetNode @ ''-target-right''\<rparr>)
              else
                (if jgt deltaY (Fin 0) then
                   \<lparr>sourceHandle = n_id sourceNode @ ''-source-bottom'',
                    targetHandle = n_id targetNode @ ''-target-top''\<rparr>
                 else
                   \<lparr>sourceHandle = n_id sourceNode @ ''-source-top'',
                    targetHandle = n_id targetNode @ ''-target-bottom''\<rparr>))
      | _ \<Rightarrow>
          \<lparr>sourceHandle = n_id sourceNode @ ''-source-bottom'',
           targetHandle = n_id targetNode @ ''-target-top''\<rparr>)"

section \<open>The layout engine\<close>

record LayoutPosition =
  lp_x :: jsnum
  lp_y :: jsnum

record LayoutConfig =
  spacing :: jsnum
  padding :: jsnum

record LayoutEngine =
  schema :: Schema
  config :: LayoutConfig

text \<open>A \<^verbatim>\<open>Set<string>\<close> is the list of its elements in the order they were added.\<close>

definition setAdd :: "string list \<Rightarrow> string \<Rightarrow> string list" where
  "setAdd xs a = (if a \<in> set xs then xs else xs @ [a])"

subsection \<open>hierarchicalLayout\<close>

text \<open>The map \<^verbatim>\<open>dependencies\<close>: an empty set for every table, then the target of every
  relationship whose source is a key. (The map \<^verbatim>\<open>dependents\<close> of the source is built the
  same way and never read.)\<close>

definition addDependency :: "(string \<rightharpoonup> string list) \<Rightarrow> Relationship \<Rightarrow> (string \<rightharpoonup> string list)" where
  "addDependency deps rel =
     (case deps (r_from rel) of
        None \<Rightarrow> deps
      | Some ds \<Rightarrow> deps (r_from rel \<mapsto> setAdd ds (r_to rel)))"

definition dependenciesOf :: "LayoutEngine \<Rightarrow> Table list \<Rightarrow> (string \<rightharpoonup> string list)" where
  "dependenciesOf this tbls =
     foldl addDependency (foldl (\<lambda>deps table. deps (t_name table \<mapsto> [])) Map.empty tbls)
       (relationships (schema this))"

text \<open>One round of the loop \<^verbatim>\<open>while (processedTables.size < tables.length)\<close>: the next
  level.\<close>

definition nextLevelOf :: "(string \<rightharpoonup> string list) \<Rightarrow> Table list \<Rightarrow> string list \<Rightarrow> string list" where
  "nextLevelOf dependencies tbls processedTables =
     (let nextLevel = map t_name (filter (\<lambda>table. t_name table \<notin> set processedTables \<and>
            (case dependencies (t_name table) of
               None \<Rightarrow> False
             | Some deps \<Rightarrow> list_all (\<lambda>dep. dep \<in> set processedTables) deps)) tbls)
      in if nextLevel = []
         then map t_name (filter (\<lambda>t. t_name t \<notin> set processedTables) tbls)
         else nextLevel)"

partial_function (option) buildLevels ::
  "(string \<rightharpoonup> string list) \<Rightarrow> Table list \<Rightarrow> string list \<Rightarrow> string list list \<Rightarrow> string list list option" where
  "buildLevels dependencies tbls processedTables levels =
     (if length processedTables < length tbls then
        (let nextLevel = nextLevelOf dependencies tbls processedTables
         in buildLevels dependencies tbls (foldl setAdd processedTables nextLevel)
              (levels @ [nextLevel]))
      else Some levels)"

text \<open>\<^verbatim>\<open>level.forEach((tableName, tableIndex) => positions.set(tableName, ...))\<close>; the width
  of the window is a parameter.\<close>

definition placeLevel ::
  "LayoutConfig \<Rightarrow> jsnum \<Rightarrow> (string \<rightharpoonup> LayoutPosition) \<Rightarrow> string list \<times> nat \<Rightarrow> (string \<rightharpoonup> LayoutPosition)" where
  "placeLevel cfg innerWidth positions lv =
     (case lv of (level, levelIndex) \<Rightarrow>
       (let levelSpacing = jmul (spacing cfg) (literal (12 / 10));
            y = jadd (jmul (num levelIndex) levelSpacing) (padding cfg)
        in foldl (\<lambda>positions (tableName, tableIndex).
             (let tablesInLevel = num (length level);
                  totalWidth = jmul (jsub tablesInLevel (Fin 1)) (spacing cfg);
                  startX = jsub (padding cfg) (jdiv totalWidth (Fin 2))
              in positions (tableName \<mapsto>
                   \<lparr>lp_x = jadd (jadd startX (jmul (num tableIndex) (spacing cfg)))
                                  (jdiv innerWidth (Fin 2)),
                    lp_y = y\<rparr>)))
             positions (zip level [0 ..< length level])))"

definition hierarchicalLayout ::
  "LayoutEngine \<Rightarrow> jsnum \<Rightarrow> Table list \<Rightarrow> (string \<rightharpoonup> LayoutPosition) option" where
  "hierarchicalLayout this innerWidth tbls =
     (let dependencies = dependenciesOf this tbls;
          rootTables = filter (\<lambda>table. case dependencies (t_name table) of
                                 None \<Rightarrow> False | Some deps \<Rightarrow> length deps = 0) tbls;
          levels = (if length rootTables > 0 then [map t_name rootTables] else []);
          processedTables = foldl setAdd [] (map t_name rootTables)
      in case buildLevels dependencies tbls processedTables levels of
           None \<Rightarrow> None
         | Some levels \<Rightarrow>
             Some (foldl (placeLevel (config this) innerWidth) Map.empty
                     (zip levels [0 ..< length levels])))"

subsection \<open>resolveOverlaps\<close>

text \<open>
  The position objects are shared between the map that comes in and the copy the function
  returns, and they are updated in place: a map gives the address of the object of a table,
  a heap the object at an address. Reading a coordinate of the position of a table that
  is not in the map throws a TypeError.
\<close>

type_synonym addr = nat
type_synonym heap = "addr \<Rightarrow> LayoutPosition"

definition distanceOf :: "LayoutPosition \<Rightarrow> LayoutPosition \<Rightarrow> jsnum" where
  "distanceOf pos1 pos2 =
     (let dx = jsub (lp_x pos1) (lp_x pos2);
          dy = jsub (lp_y pos1) (lp_y pos2)
      in jsqrt (jadd (jmul dx dx) (jmul dy dy)))"

text \<open>The body of the two nested \<^verbatim>\<open>forEach\<close> for a pair of tables; the state is the
  heap and the flag \<^verbatim>\<open>hasOverlaps\<close>.\<close>

definition overlapStep ::
  "jsnum \<Rightarrow> (string \<rightharpoonup> addr) \<Rightarrow> heap \<times> bool \<Rightarrow> Table \<times> Table \<Rightarrow> error + heap \<times> bool" where
  "overlapStep minDistance positions st pair =
     (case st of (h, hasOverlaps) \<Rightarrow>
       (case pair of (table1, table2) \<Rightarrow>
         if t_name table1 = t_name table2 then Inr (h, hasOverlaps)
         else
           (case (positions (t_name table1), positions (t_name table2)) of
              (Some pos1, Some pos2) \<Rightarrow>
                (let dx = jsub (lp_x (h pos1)) (lp_x (h pos2));
                     dy = jsub (lp_y (h pos1)) (lp_y (h pos2));
                     distance = jsqrt (jadd (jmul dx dx) (jmul dy dy))
                 in if jlt distance minDistance then
                      (let moveDistance = jadd (jdiv (jsub minDistance distance) (Fin 2)) (Fin 10);
                           moveX = jmul (jdiv dx distance) moveDistance;
                           moveY = jmul (jdiv dy distance) moveDistance;
                           h = h (pos1 := (h pos1)\<lparr>lp_x := jadd (lp_x (h pos1)) moveX\<rparr>);
                           h = h (pos1 := (h pos1)\<lparr>lp_y := jadd (lp_y (h pos1)) moveY\<rparr>);
                           h = h (pos2 := (h pos2)\<lparr>lp_x := jsub (lp_x (h pos2)) moveX\<rparr>);
                           h = h (pos2 := (h pos2)\<lparr>lp_y := jsub (lp_y (h pos2)) moveY\<rparr>)
                       in Inr (h, True))
                    else Inr (h, hasOverlaps))
            | _ \<Rightarrow> Inl TypeError)))"

fun foldE :: "('s \<Rightarrow> 'a \<Rightarrow> error + 's) \<Rightarrow> 's \<Rightarrow> 'a list \<Rightarrow> error + 's" where
  "foldE f st [] = Inr st"
| "foldE f st (x # xs) = (case f st x of Inl e \<Rightarrow> Inl e | Inr st' \<Rightarrow> foldE f st' xs)"

text \<open>One round of \<^verbatim>\<open>for (let iteration = 0; iteration < 50; iteration++)\<close>: every pair
  of tables, the second table running faster.\<close>

definition overlapSweep ::
  "jsnum \<Rightarrow> (string \<rightharpoonup> addr) \<Rightarrow> Table list \<Rightarrow> heap \<Rightarrow> error + heap \<times> bool" where
  "overlapSweep minDistance positions tbls h =
     foldE (overlapStep minDistance positions) (h, False) (List.product tbls tbls)"

text \<open>The loop, from the value of \<^verbatim>\<open>iteration\<close> on: it returns the heap and the value of
  \<^verbatim>\<open>iteration\<close> when it ends, which is 50 when the cap was reached and less after
  \<^verbatim>\<open>break\<close>.\<close>

function resolveLoop ::
  "jsnum \<Rightarrow> (string \<rightharpoonup> addr) \<Rightarrow> Table list \<Rightarrow> nat \<Rightarrow> heap \<Rightarrow> error + heap \<times> nat" where
  "resolveLoop minDistance positions tbls iteration h =
     (if iteration < 50 then
        (case overlapSweep minDistance positions tbls h of
           Inl e \<Rightarrow> Inl e
         | Inr (h', hasOverlaps) \<Rightarrow>
             if \<not> hasOverlaps then Inr (h', iteration)
             else resolveLoop minDistance positions tbls (iteration + 1) h')
      else Inr (h, iteration))"
  by pat_completeness auto
termination
  by (relation "measure (\<lambda>(md, pos, tbls, iteration, h). 50 - iteration)") auto

declare resolveLoop.simps [simp del]

definition resolveOverlaps ::
  "LayoutEngine \<Rightarrow> Table list \<Rightarrow> (string \<rightharpoonup> addr) \<Rightarrow> heap \<Rightarrow> error + (string \<rightharpoonup> addr) \<times> heap" where
  "resolveOverlaps this tbls currentPositions h =
     (let positions = currentPositions;
          minDistance = jmul (spacing (config this)) (literal (7 / 10))
      in case resolveLoop minDistance positions tbls 0 h of
           Inl e \<Rightarrow> Inl e
         | Inr (h', iteration) \<Rightarrow> Inr (positions, h'))"

chapter \<open>Properties\<close>

section \<open>Numbers\<close>

subsection \<open>Powers of two\<close>

lemma pow2_pos [simp]: "0 < pow2 e"
  by (simp add: pow2_def)

lemma pow2_nonneg [simp]: "0 \<le> pow2 e"
  by (simp add: pow2_def)

lemma pow2_neq0 [simp]: "pow2 e \<noteq> 0"
  by (simp add: pow2_def)

lemma abs_pow2 [simp]: "\<bar>pow2 e\<bar> = pow2 e"
  by (simp add: pow2_def power_int_abs)

lemma pow2_add: "pow2 (a + b) = pow2 a * pow2 b"
  by (simp add: pow2_def power_int_add)

lemma pow2_diff: "pow2 (a - b) = pow2 a / pow2 b"
  by (simp add: pow2_def power_int_diff)

lemma pow2_mono: "a \<le> b \<Longrightarrow> pow2 a \<le> pow2 b"
  by (simp add: pow2_def power_int_increasing)

lemma pow2_strict_mono: "a < b \<Longrightarrow> pow2 a < pow2 b"
  by (simp add: pow2_def power_int_strict_increasing)

lemma pow2_less_cancel: "pow2 a < pow2 b \<Longrightarrow> a < b"
  using pow2_mono [of b a] by (cases "a < b") auto

lemma pow2_nat: "0 \<le> e \<Longrightarrow> pow2 e = of_int (2 ^ nat e)"
  by (simp add: pow2_def power_int_nonneg_exp)

subsection \<open>The exponent of a positive number\<close>

lemma up_bounds: "1 \<le> x \<Longrightarrow> 2 ^ up x \<le> x \<and> x < 2 ^ Suc (up x)"
proof (induction x rule: up.induct)
  case (1 x)
  show ?case
  proof (cases "x < 2")
    case True
    with "1.prems" show ?thesis by (simp add: up.simps [of x])
  next
    case False
    then have "1 \<le> x / 2" by simp
    from "1.IH" [OF False this] False show ?thesis
      by (simp add: up.simps [of x])
  qed
qed

lemma down_bounds: "0 < x \<Longrightarrow> x < 1 \<Longrightarrow> 1 \<le> x * 2 ^ down x \<and> x * 2 ^ down x < 2"
proof (induction x rule: down.induct)
  case (1 x)
  from "1.prems" have step: "down x = Suc (down (2 * x))"
    by (simp add: down.simps [of x])
  show ?case
  proof (cases "1 \<le> 2 * x")
    case True
    then have "down (2 * x) = 0" by (simp add: down.simps [of "2 * x"])
    with True "1.prems" show ?thesis by (simp add: step)
  next
    case False
    with "1.prems" "1.IH" have "1 \<le> 2 * x * 2 ^ down (2 * x) \<and> 2 * x * 2 ^ down (2 * x) < 2"
      by simp
    then show ?thesis by (simp add: step mult.assoc mult.left_commute)
  qed
qed

lemma ilog2_bounds:
  assumes "0 < x"
  shows "pow2 (ilog2 x) \<le> x" and "x < pow2 (ilog2 x + 1)"
proof -
  have "pow2 (ilog2 x) \<le> x \<and> x < pow2 (ilog2 x + 1)"
  proof (cases "1 \<le> x")
    case True
    have "pow2 (int (up x) + 1) = 2 ^ Suc (up x)"
      by (simp add: pow2_add) (simp add: pow2_def)
    with up_bounds [OF True] True show ?thesis
      by (simp add: ilog2_def) (simp add: pow2_def)
  next
    case False
    with assms have x: "0 < x" "x < 1" by auto
    from down_bounds [OF x] have a: "1 \<le> x * 2 ^ down x" and b: "x * 2 ^ down x < 2" by auto
    have p: "pow2 (- int (down x)) = 1 / 2 ^ down x"
      by (simp add: pow2_def power_int_minus_divide)
    have "pow2 1 = 2" by (simp add: pow2_def)
    then have q: "pow2 (- int (down x) + 1) = 2 / 2 ^ down x"
      unfolding pow2_add [of "- int (down x)" 1] p by simp
    from a have "1 / 2 ^ down x \<le> x" by (simp add: field_simps)
    moreover from b have "x < 2 / 2 ^ down x" by (simp add: field_simps)
    moreover from False have "ilog2 x = - int (down x)" by (simp add: ilog2_def)
    ultimately show ?thesis unfolding p [symmetric] q [symmetric] by simp
  qed
  then show "pow2 (ilog2 x) \<le> x" and "x < pow2 (ilog2 x + 1)" by auto
qed

lemma ilog2_unique:
  assumes "pow2 k \<le> x" and "x < pow2 (k + 1)"
  shows "ilog2 x = k"
proof -
  from assms(1) have pos: "0 < x" using pow2_pos [of k] by linarith
  from ilog2_bounds(1) [OF pos] assms(2) have "pow2 (ilog2 x) < pow2 (k + 1)" by linarith
  then have "ilog2 x < k + 1" by (rule pow2_less_cancel)
  moreover from ilog2_bounds(2) [OF pos] assms(1) have "pow2 k < pow2 (ilog2 x + 1)" by linarith
  then have "k < ilog2 x + 1" by (rule pow2_less_cancel)
  ultimately show ?thesis by simp
qed

lemma ilog2_mono:
  assumes "0 < x" and "x \<le> y"
  shows "ilog2 x \<le> ilog2 y"
proof -
  from assms have "0 < y" by simp
  from ilog2_bounds(1) [OF assms(1)] ilog2_bounds(2) [OF this] assms(2)
  have "pow2 (ilog2 x) < pow2 (ilog2 y + 1)" by linarith
  then have "ilog2 x < ilog2 y + 1" by (rule pow2_less_cancel)
  then show ?thesis by simp
qed

subsection \<open>Rounding to an integer\<close>

lemma nearestEven_int [simp]: "nearestEven (of_int k) = k"
  by (simp add: nearestEven_def)

lemma nearestEven_ge: "of_int k \<le> y \<Longrightarrow> k \<le> nearestEven y"
proof -
  assume "of_int k \<le> y"
  then have "k \<le> \<lfloor>y\<rfloor>" by (simp add: le_floor_iff)
  then show ?thesis by (simp add: nearestEven_def Let_def)
qed

lemma nearestEven_le: "y \<le> of_int k \<Longrightarrow> nearestEven y \<le> k"
proof -
  assume le: "y \<le> of_int k"
  show ?thesis
  proof (cases "y = of_int k")
    case True
    then show ?thesis by simp
  next
    case False
    with le have "y < of_int k" by simp
    then have "\<lfloor>y\<rfloor> < k" by (simp add: floor_less_iff)
    then show ?thesis by (simp add: nearestEven_def Let_def)
  qed
qed

lemma nearestEven_near:
  assumes "\<bar>y - of_int i\<bar> < 1 / 2"
  shows "nearestEven y = i"
proof (cases "of_int i \<le> y")
  case True
  with assms have "y < of_int i + 1" by linarith
  with True have f: "\<lfloor>y\<rfloor> = i" by (simp add: floor_unique)
  from assms True have "y - of_int i < 1 / 2" by linarith
  with f show ?thesis by (simp add: nearestEven_def)
next
  case False
  with assms have a: "of_int (i - 1) \<le> y" "y < of_int (i - 1) + 1" by auto
  then have f: "\<lfloor>y\<rfloor> = i - 1" by (rule floor_unique)
  from assms False have "1 / 2 < y - of_int (i - 1)" by simp
  with f show ?thesis by (simp add: nearestEven_def)
qed

subsection \<open>Rounding\<close>

lemma ulpExp_le:
  assumes "x \<noteq> 0" and "\<bar>x\<bar> < pow2 (e + 53)" and "- 1074 \<le> e"
  shows "ulpExp x \<le> e"
proof -
  from assms(1) have pos: "0 < \<bar>x\<bar>" by simp
  from ilog2_bounds(1) [OF pos] assms(2) have "pow2 (ilog2 \<bar>x\<bar>) < pow2 (e + 53)" by linarith
  then have "ilog2 \<bar>x\<bar> < e + 53" by (rule pow2_less_cancel)
  with assms(3) show ?thesis by (simp add: ulpExp_def)
qed

lemma scale_int:
  assumes "u \<le> e"
  shows "of_int i * pow2 e / pow2 u = of_int (i * 2 ^ nat (e - u))"
proof -
  have "pow2 e / pow2 u = pow2 (e - u)" by (simp add: pow2_diff)
  also from assms have "\<dots> = of_int (2 ^ nat (e - u))" by (simp add: pow2_nat)
  finally have "pow2 e / pow2 u = of_int (2 ^ nat (e - u))" .
  moreover have "of_int i * pow2 e / pow2 u = of_int i * (pow2 e / pow2 u)" by simp
  ultimately show ?thesis by (simp only: of_int_mult)
qed

text \<open>A multiple of a power of two with a mantissa of at most 53 bits, in the range of the
  exponents, is a number.\<close>

lemma round64_exact:
  assumes "\<bar>i\<bar> < 2 ^ 53" and "- 1074 \<le> e" and "e \<le> 971"
  shows "round64 (of_int i * pow2 e) = Fin (of_int i * pow2 e)"
proof (cases "i = 0")
  case True
  then show ?thesis by (simp add: round64_def)
next
  case False
  define x where "x = (of_int i :: rat) * pow2 e"
  from False have x0: "x \<noteq> 0" by (simp add: x_def pow2_def)
  have ax: "\<bar>x\<bar> = of_int \<bar>i\<bar> * pow2 e" by (simp add: x_def abs_mult)
  from assms(1) have "(of_int \<bar>i\<bar> :: rat) < of_int (2 ^ 53)" by (simp only: of_int_less_iff)
  then have "(of_int \<bar>i\<bar> :: rat) < pow2 53" by (simp add: pow2_def)
  then have "\<bar>x\<bar> < pow2 53 * pow2 e" unfolding ax by simp
  then have lt: "\<bar>x\<bar> < pow2 (e + 53)" by (simp add: pow2_add mult.commute)
  from ulpExp_le [OF x0 lt assms(2)] have u: "ulpExp x \<le> e" .
  have sc: "x / pow2 (ulpExp x) = of_int (i * 2 ^ nat (e - ulpExp x))"
    using scale_int [OF u, of i] by (simp only: x_def)
  then have "nearestEven (x / pow2 (ulpExp x)) = i * 2 ^ nat (e - ulpExp x)"
    by (simp only: nearestEven_int)
  then have "of_int (nearestEven (x / pow2 (ulpExp x))) * pow2 (ulpExp x) = x / pow2 (ulpExp x) * pow2 (ulpExp x)"
    by (simp only: sc)
  also have "\<dots> = x" using pow2_pos [of "ulpExp x"] by simp
  finally have r: "of_int (nearestEven (x / pow2 (ulpExp x))) * pow2 (ulpExp x) = x" .
  from assms(3) have "pow2 (e + 53) \<le> pow2 1024" by (intro pow2_mono) simp
  with lt have "\<not> pow2 1024 \<le> \<bar>x\<bar>" by linarith
  with x0 r show ?thesis unfolding x_def [symmetric] by (simp add: round64_def Let_def)
qed

text \<open>Rounding, checked: the exponent k of the number, the exponent e of its last place,
  and an integer i less than half a unit away.\<close>

lemma round64_near:
  assumes "pow2 k \<le> \<bar>x\<bar>" and "\<bar>x\<bar> < pow2 (k + 1)" and "e = max (k - 52) (- 1074)"
    and "\<bar>x / pow2 e - of_int i\<bar> < 1 / 2"
  shows "round64 x = (if pow2 1024 \<le> \<bar>of_int i * pow2 e\<bar> then (if 0 < x then PInf else NInf)
                      else Fin (of_int i * pow2 e))"
proof -
  from assms(1) pow2_pos [of k] have "0 < \<bar>x\<bar>" by linarith
  then have x0: "x \<noteq> 0" by simp
  from ilog2_unique [OF assms(1,2)] assms(3) have e: "ulpExp x = e" by (simp add: ulpExp_def)
  from nearestEven_near [OF assms(4)] have "nearestEven (x / pow2 e) = i" .
  with x0 e show ?thesis by (simp add: round64_def Let_def)
qed

text \<open>What a number is made of.\<close>

lemma isDouble_parts:
  assumes "isDouble d" and "d \<noteq> 0"
  shows "d = of_int (nearestEven (d / pow2 (ulpExp d))) * pow2 (ulpExp d)" and "\<bar>d\<bar> < pow2 1024"
proof -
  from assms have "(let e = ulpExp d; r = of_int (nearestEven (d / pow2 e)) * pow2 e
            in if pow2 1024 \<le> \<bar>r\<bar> then (if 0 < d then PInf else NInf) else Fin r) = Fin d"
    by (simp add: isDouble_def round64_def)
  then have a: "\<not> pow2 1024 \<le> \<bar>of_int (nearestEven (d / pow2 (ulpExp d))) * pow2 (ulpExp d)\<bar>"
    and b: "of_int (nearestEven (d / pow2 (ulpExp d))) * pow2 (ulpExp d) = d"
    by (auto simp: Let_def split: if_splits)
  from b show "d = of_int (nearestEven (d / pow2 (ulpExp d))) * pow2 (ulpExp d)" by simp
  from a b show "\<bar>d\<bar> < pow2 1024" by simp
qed

text \<open>Rounding does not go below a number that is not above the value.\<close>

lemma round64_value_ge:
  assumes "isDouble d" and "d \<le> x" and "x \<noteq> 0"
  shows "d \<le> of_int (nearestEven (x / pow2 (ulpExp x))) * pow2 (ulpExp x)"
proof -
  define e where "e = ulpExp x"
  define i where "i = nearestEven (x / pow2 e)"
  have grid: "d \<le> of_int i * pow2 e" if dm: "d = of_int md * pow2 ed" and le: "e \<le> ed" for md ed
  proof -
    have "d / pow2 e = of_int (md * 2 ^ nat (ed - e))"
      unfolding dm by (rule scale_int [OF le])
    moreover from assms(2) have "d / pow2 e \<le> x / pow2 e"
      by (simp add: divide_right_mono)
    ultimately have "md * 2 ^ nat (ed - e) \<le> i"
      unfolding i_def by (intro nearestEven_ge) simp
    then have "(of_int (md * 2 ^ nat (ed - e)) :: rat) \<le> of_int i" by (simp only: of_int_le_iff)
    then have "d / pow2 e \<le> of_int i" using \<open>d / pow2 e = of_int (md * 2 ^ nat (ed - e))\<close> by simp
    then show ?thesis by (simp add: pos_divide_le_eq)
  qed
  have "d \<le> of_int i * pow2 e"
  proof (cases "d = 0")
    case True
    with assms(2,3) have "0 < x" by simp
    then have "of_int 0 \<le> x / pow2 e" by simp
    then have "0 \<le> i" unfolding i_def by (rule nearestEven_ge)
    with True show ?thesis by simp
  next
    case d0: False
    define ed where "ed = ulpExp d"
    define md where "md = nearestEven (d / pow2 ed)"
    from isDouble_parts(1) [OF assms(1) d0] have dm: "d = of_int md * pow2 ed"
      by (simp add: md_def ed_def)
    show ?thesis
    proof (cases "e \<le> ed")
      case True
      from grid [OF dm True] show ?thesis .
    next
      case False
      then have lt: "ed < e" by simp
      have "- 1074 \<le> ed" by (simp add: ed_def ulpExp_def)
      with lt have e: "e = ilog2 \<bar>x\<bar> - 52" by (simp add: e_def ulpExp_def max_def split: if_splits)
      have "ilog2 \<bar>d\<bar> - 52 \<le> ed" by (simp add: ed_def ulpExp_def)
      with lt e have il: "ilog2 \<bar>d\<bar> + 1 \<le> ilog2 \<bar>x\<bar>" by simp
      from d0 have dpos: "0 < \<bar>d\<bar>" by simp
      from assms(3) have xpos: "0 < \<bar>x\<bar>" by simp
      from ilog2_bounds(2) [OF dpos] pow2_mono [OF il] have "\<bar>d\<bar> < pow2 (ilog2 \<bar>x\<bar>)" by linarith
      with ilog2_bounds(1) [OF xpos] have small: "\<bar>d\<bar> < pow2 (ilog2 \<bar>x\<bar>)" "\<bar>d\<bar> < \<bar>x\<bar>" by auto
      with assms(2) have x: "0 < x" by linarith
      with ilog2_bounds(1) [OF xpos] have "pow2 (e + 52) \<le> x" by (simp add: e)
      then have "pow2 52 * pow2 e \<le> x" by (simp add: pow2_add mult.commute)
      then have "pow2 52 \<le> x / pow2 e" by (simp add: pos_le_divide_eq)
      moreover have "pow2 52 = of_int (2 ^ 52)" by (simp add: pow2_def)
      ultimately have "of_int (2 ^ 52) \<le> x / pow2 e" by simp
      then have "2 ^ 52 \<le> i" unfolding i_def by (rule nearestEven_ge)
      then have "(of_int (2 ^ 52) :: rat) \<le> of_int i" by (simp only: of_int_le_iff)
      then have "pow2 52 \<le> of_int i" by (simp add: pow2_def)
      then have "pow2 52 * pow2 e \<le> of_int i * pow2 e" by simp
      then have "pow2 (ilog2 \<bar>x\<bar>) \<le> of_int i * pow2 e" by (simp add: e pow2_add [symmetric])
      with small(1) show ?thesis by linarith
    qed
  qed
  then show ?thesis by (simp add: i_def e_def)
qed

lemma round64_ge:
  assumes "isDouble d" and "d \<le> x"
  shows "\<not> jlt (round64 x) (Fin d)"
proof (cases "x = 0")
  case True
  with assms(2) show ?thesis by (simp add: round64_def)
next
  case False
  define r where "r = of_int (nearestEven (x / pow2 (ulpExp x))) * pow2 (ulpExp x)"
  from round64_value_ge [OF assms False] have dr: "d \<le> r" by (simp add: r_def)
  have rx: "round64 x = (if pow2 1024 \<le> \<bar>r\<bar> then (if 0 < x then PInf else NInf) else Fin r)"
    using False by (simp add: round64_def Let_def r_def)
  show ?thesis
  proof (cases "pow2 1024 \<le> \<bar>r\<bar> \<and> \<not> 0 < x")
    case True
    with False have neg: "x < 0" by simp
    then have "x / pow2 (ulpExp x) \<le> of_int 0" by (simp add: divide_le_0_iff)
    then have "nearestEven (x / pow2 (ulpExp x)) \<le> 0" by (rule nearestEven_le)
    then have "r \<le> 0" by (simp add: r_def mult_le_0_iff)
    with dr have "\<bar>r\<bar> \<le> \<bar>d\<bar>" by simp
    moreover from neg assms(2) have "d \<noteq> 0" by auto
    from isDouble_parts(2) [OF assms(1) this] have "\<bar>d\<bar> < pow2 1024" .
    ultimately show ?thesis using True by linarith
  next
    case False
    with dr show ?thesis by (auto simp: rx)
  qed
qed

lemma round64_not_NaN [simp]: "round64 x \<noteq> NaN"
  by (simp add: round64_def Let_def)

lemma mantissa_bound:
  assumes "x \<noteq> 0"
  shows "\<bar>nearestEven (x / pow2 (ulpExp x))\<bar> \<le> 2 ^ 53"
proof -
  define e where "e = ulpExp x"
  from assms have pos: "0 < \<bar>x\<bar>" by simp
  have "ilog2 \<bar>x\<bar> - 52 \<le> e" by (simp add: e_def ulpExp_def)
  then have "ilog2 \<bar>x\<bar> + 1 \<le> e + 53" by simp
  from ilog2_bounds(2) [OF pos] pow2_mono [OF this] have "\<bar>x\<bar> < pow2 (e + 53)" by linarith
  then have "\<bar>x\<bar> < pow2 53 * pow2 e" by (simp add: pow2_add mult.commute)
  then have "\<bar>x\<bar> / pow2 e < pow2 53" by (simp add: pos_divide_less_eq)
  moreover have "pow2 53 = of_int (2 ^ 53)" by (simp add: pow2_def)
  moreover define y where "y = x / pow2 e"
  moreover have "\<bar>y\<bar> = \<bar>x\<bar> / pow2 e" by (simp add: y_def)
  ultimately have b: "\<bar>y\<bar> < of_int (2 ^ 53)" by simp
  then have "y \<le> of_int (2 ^ 53)" by linarith
  then have up: "nearestEven y \<le> 2 ^ 53" by (rule nearestEven_le)
  from b have "- of_int (2 ^ 53) \<le> y" by linarith
  then have "of_int (- (2 ^ 53)) \<le> y" by (simp only: of_int_minus)
  then have "- (2 ^ 53) \<le> nearestEven y" by (rule nearestEven_ge)
  with up show ?thesis by (simp add: e_def y_def)
qed

text \<open>What rounding gives is a number.\<close>

lemma round64_isDouble:
  assumes "round64 x = Fin r"
  shows "isDouble r"
proof (cases "x = 0")
  case True
  with assms have "r = 0" by (simp add: round64_def)
  then show ?thesis by (simp add: isDouble_def round64_def)
next
  case x0: False
  define e where "e = ulpExp x"
  define i where "i = nearestEven (x / pow2 e)"
  from assms x0 have r: "r = of_int i * pow2 e" and fin: "\<not> pow2 1024 \<le> \<bar>of_int i * pow2 e\<bar>"
    by (auto simp: round64_def Let_def i_def e_def split: if_splits)
  have min: "- 1074 \<le> e" by (simp add: e_def ulpExp_def)
  from mantissa_bound [OF x0] have mb: "\<bar>i\<bar> \<le> 2 ^ 53" by (simp add: i_def e_def)
  show ?thesis
  proof (cases "i = 0")
    case True
    with r show ?thesis by (simp add: isDouble_def round64_def)
  next
    case m0: False
    then have "1 \<le> \<bar>i\<bar>" by simp
    then have "(of_int 1 :: rat) \<le> of_int \<bar>i\<bar>" by (simp only: of_int_le_iff)
    then have one: "(1 :: rat) \<le> \<bar>of_int i\<bar>" by simp
    have am: "\<bar>of_int i * pow2 e\<bar> = \<bar>of_int i :: rat\<bar> * pow2 e" by (simp add: abs_mult)
    show ?thesis
    proof (cases "\<bar>i\<bar> = 2 ^ 53")
      case True
      then have "\<bar>of_int i :: rat\<bar> = of_int (2 ^ 53)" by (simp only: of_int_abs [symmetric])
      then have "\<bar>of_int i :: rat\<bar> = pow2 53" by (simp add: pow2_def)
      with fin am have "pow2 53 * pow2 e < pow2 1024" by simp
      then have "pow2 (e + 53) < pow2 1024" by (simp add: pow2_add mult.commute)
      then have "e + 53 < 1024" by (rule pow2_less_cancel)
      then have e1: "e + 1 \<le> 971" by simp
      from True have "i = 2 ^ 53 \<or> i = - (2 ^ 53)" by linarith
      then obtain m' :: int where m': "i = 2 * m'" "\<bar>m'\<bar> < 2 ^ 53" by auto
      have "pow2 (e + 1) = 2 * pow2 e" by (simp add: pow2_add) (simp add: pow2_def)
      then have "r = of_int m' * pow2 (e + 1)" by (simp add: r m'(1))
      moreover from min have "- 1074 \<le> e + 1" by simp
      ultimately show ?thesis using round64_exact [OF m'(2) _ e1] by (simp add: isDouble_def)
    next
      case False
      with mb have lt: "\<bar>i\<bar> < 2 ^ 53" by simp
      have "e \<le> 971"
      proof (rule ccontr)
        assume "\<not> e \<le> 971"
        then have big: "972 \<le> e" by simp
        from big have ek: "e = ilog2 \<bar>x\<bar> - 52"
          by (simp add: e_def ulpExp_def max_def split: if_splits)
        from x0 have pos: "0 < \<bar>x\<bar>" by simp
        from ilog2_bounds(1) [OF pos] have "pow2 (e + 52) \<le> \<bar>x\<bar>" by (simp add: ek)
        then have "pow2 52 * pow2 e \<le> \<bar>x\<bar>" by (simp add: pow2_add mult.commute)
        then have "pow2 52 \<le> \<bar>x\<bar> / pow2 e" by (simp add: pos_le_divide_eq)
        then have y: "of_int (2 ^ 52) \<le> \<bar>x / pow2 e\<bar>" by (simp add: pow2_def)
        have "2 ^ 52 \<le> \<bar>i\<bar>"
        proof (cases "0 \<le> x")
          case True
          with y have "of_int (2 ^ 52) \<le> x / pow2 e" by simp
          then have "2 ^ 52 \<le> i" unfolding i_def by (rule nearestEven_ge)
          then show ?thesis by simp
        next
          case False
          with y have "x / pow2 e \<le> of_int (- (2 ^ 52))" by (simp add: abs_if divide_less_0_iff split: if_splits)
          then have "i \<le> - (2 ^ 52)" unfolding i_def by (rule nearestEven_le)
          then show ?thesis by simp
        qed
        then have "(of_int (2 ^ 52) :: rat) \<le> of_int \<bar>i\<bar>" by (simp only: of_int_le_iff)
        then have "pow2 52 \<le> \<bar>of_int i :: rat\<bar>" by (simp add: pow2_def)
        then have "pow2 52 * pow2 e \<le> \<bar>of_int i :: rat\<bar> * pow2 e" by simp
        then have "pow2 (e + 52) \<le> \<bar>of_int i :: rat\<bar> * pow2 e"
          by (simp only: pow2_add mult.commute)
        moreover from big have "pow2 1024 \<le> pow2 (e + 52)" by (intro pow2_mono) simp
        ultimately have "pow2 1024 \<le> \<bar>of_int i :: rat\<bar> * pow2 e"
          by linarith
        with fin am show False by simp
      qed
      from round64_exact [OF lt min this] r show ?thesis by (simp add: isDouble_def)
    qed
  qed
qed

subsection \<open>Numbers that need no rounding\<close>

lemma round64_0 [simp]: "round64 0 = Fin 0"
  by (simp add: round64_def)

lemma round64_1 [simp]: "round64 1 = Fin 1"
  using round64_exact [of 1 0] by (simp add: pow2_def)

lemma round64_numeral [simp]:
  assumes "(numeral n :: rat) < 2 ^ 53"
  shows "round64 (numeral n) = Fin (numeral n)"
proof -
  from assms have "(of_int (numeral n) :: rat) < of_int (2 ^ 53)" by simp
  then have "(numeral n :: int) < 2 ^ 53" by (simp only: of_int_less_iff)
  then have "\<bar>numeral n :: int\<bar> < 2 ^ 53" by simp
  from round64_exact [OF this, of 0] show ?thesis by (simp add: pow2_def)
qed

lemma round64_half [simp]:
  assumes "(numeral n :: rat) < 2 ^ 53"
  shows "round64 (numeral n / 2) = Fin (numeral n / 2)"
proof -
  from assms have "(of_int (numeral n) :: rat) < of_int (2 ^ 53)" by simp
  then have "(numeral n :: int) < 2 ^ 53" by (simp only: of_int_less_iff)
  then have "\<bar>numeral n :: int\<bar> < 2 ^ 53" by simp
  from round64_exact [OF this, of "- 1"] show ?thesis by (simp add: pow2_def)
qed

lemma isDouble_numeral: "(numeral n :: rat) < 2 ^ 53 \<Longrightarrow> isDouble (numeral n)"
  by (simp add: isDouble_def)

text \<open>The literals 1.2 and 0.7 of the layout engine.\<close>

lemma literal_12: "literal (12 / 10) = Fin (5404319552844595 / 4503599627370496)"
  using round64_near [of 0 "12 / 10" "- 52" 5404319552844595]
  by (simp add: literal_def pow2_def)

lemma literal_6_5: "literal (6 / 5) = Fin (5404319552844595 / 4503599627370496)"
  using literal_12 by simp

lemma literal_7: "literal (7 / 10) = Fin (3152519739159347 / 4503599627370496)"
  using round64_near [of "- 1" "7 / 10" "- 53" 6305039478318694]
  by (simp add: literal_def pow2_def)

section \<open>The edge router\<close>

text \<open>The centre of a node of the assumed size 300 by 200, and the displacement between
  the centres of two nodes, as the specification words them.\<close>

definition centerX :: "XYPosition \<Rightarrow> jsnum" where
  "centerX pos = jadd (xy_x pos) (jdiv (Fin 300) (Fin 2))"

definition centerY :: "XYPosition \<Rightarrow> jsnum" where
  "centerY pos = jadd (xy_y pos) (jdiv (Fin 200) (Fin 2))"

definition displacementX :: "XYPosition \<Rightarrow> XYPosition \<Rightarrow> jsnum" where
  "displacementX sourcePos targetPos = jsub (centerX targetPos) (centerX sourcePos)"

definition displacementY :: "XYPosition \<Rightarrow> XYPosition \<Rightarrow> jsnum" where
  "displacementY sourcePos targetPos = jsub (centerY targetPos) (centerY sourcePos)"

definition sides :: "Node \<Rightarrow> string \<Rightarrow> Node \<Rightarrow> string \<Rightarrow> ConnectionPoint" where
  "sides sourceNode a targetNode b =
     \<lparr>sourceHandle = n_id sourceNode @ ''-source-'' @ a,
      targetHandle = n_id targetNode @ ''-target-'' @ b\<rparr>"

lemma calculateOptimalConnection_eq:
  assumes "n_position sourceNode = Some sourcePos" and "n_position targetNode = Some targetPos"
  shows "calculateOptimalConnection sourceNode targetNode =
     (if jgt (jabs (displacementX sourcePos targetPos)) (jabs (displacementY sourcePos targetPos))
      then (if jgt (displacementX sourcePos targetPos) (Fin 0)
            then sides sourceNode ''right'' targetNode ''left''
            else sides sourceNode ''left'' targetNode ''right'')
      else (if jgt (displacementY sourcePos targetPos) (Fin 0)
            then sides sourceNode ''bottom'' targetNode ''top''
            else sides sourceNode ''top'' targetNode ''bottom''))"
  using assms
  by (simp add: calculateOptimalConnection_def Let_def sides_def displacementX_def
      displacementY_def centerX_def centerY_def nodeWidth_def nodeHeight_def)

text \<open>The displacement is the one the function computes, every step rounded. A target
  \<open>pow2 (- 67)\<close> to the right of the source has, after rounding, the centre of the source:
  the two displacements are zero, and the connection goes from the top to the bottom.\<close>

lemma center_rounded: "round64 (pow2 (- 67) + 150) = Fin 150"
  using round64_near [of 7 "pow2 (- 67) + 150" "- 45" "150 * 2 ^ 45"]
  by (simp add: pow2_def)

lemma isDouble_pow2_67: "isDouble (pow2 (- 67))"
  using round64_exact [of 1 "- 67"] by (simp add: isDouble_def)

lemma calculateOptimalConnection_rounded:
  "calculateOptimalConnection
     \<lparr>n_id = ''a'', n_position = Some \<lparr>xy_x = Fin 0, xy_y = Fin 0\<rparr>\<rparr>
     \<lparr>n_id = ''b'', n_position = Some \<lparr>xy_x = Fin (pow2 (- 67)), xy_y = Fin 0\<rparr>\<rparr>
   = \<lparr>sourceHandle = ''a-source-top'', targetHandle = ''b-target-bottom''\<rparr>"
  by (simp add: calculateOptimalConnection_def nodeWidth_def nodeHeight_def Let_def jsub_def
      jgt_def center_rounded)

text \<open>
  C8. For two nodes with positions, calculateOptimalConnection compares the absolute
  horizontal and vertical displacement between the centres of the nodes (of the assumed
  size 300 by 200), as it computes them. When the horizontal one is greater, the source leaves on the right and
  the target is entered on the left if the displacement is positive, and the other way
  round if not; otherwise, and so also when the two are equal, the source leaves at the
  bottom and the target is entered at the top if the vertical displacement is positive, and
  the other way round if not.
\<close>

theorem calculateOptimalConnection_sides:
  assumes "n_position sourceNode = Some sourcePos" and "n_position targetNode = Some targetPos"
  shows "(jgt (jabs (displacementX sourcePos targetPos)) (jabs (displacementY sourcePos targetPos)) \<and>
          jgt (displacementX sourcePos targetPos) (Fin 0) \<longrightarrow>
            calculateOptimalConnection sourceNode targetNode =
              sides sourceNode ''right'' targetNode ''left'')
       \<and> (jgt (jabs (displacementX sourcePos targetPos)) (jabs (displacementY sourcePos targetPos)) \<and>
          \<not> jgt (displacementX sourcePos targetPos) (Fin 0) \<longrightarrow>
            calculateOptimalConnection sourceNode targetNode =
              sides sourceNode ''left'' targetNode ''right'')
       \<and> (\<not> jgt (jabs (displacementX sourcePos targetPos)) (jabs (displacementY sourcePos targetPos)) \<and>
          jgt (displacementY sourcePos targetPos) (Fin 0) \<longrightarrow>
            calculateOptimalConnection sourceNode targetNode =
              sides sourceNode ''bottom'' targetNode ''top'')
       \<and> (\<not> jgt (jabs (displacementX sourcePos targetPos)) (jabs (displacementY sourcePos targetPos)) \<and>
          \<not> jgt (displacementY sourcePos targetPos) (Fin 0) \<longrightarrow>
            calculateOptimalConnection sourceNode targetNode =
              sides sourceNode ''top'' targetNode ''bottom'')
       \<and> (jabs (displacementX sourcePos targetPos) = jabs (displacementY sourcePos targetPos) \<longrightarrow>
            calculateOptimalConnection sourceNode targetNode \<in>
              {sides sourceNode ''bottom'' targetNode ''top'',
               sides sourceNode ''top'' targetNode ''bottom''})"
proof -
  have tie: "\<not> jgt a a" for a
    by (cases a) (simp_all add: jgt_def)
  show ?thesis
    using tie [of "jabs (displacementY sourcePos targetPos)"]
    by (simp add: calculateOptimalConnection_eq [OF assms])
qed

text \<open>A tie: the target 100 to the right of and 100 below the source.\<close>

theorem calculateOptimalConnection_sides_witness:
  "calculateOptimalConnection
     \<lparr>n_id = ''a'', n_position = Some \<lparr>xy_x = Fin 0, xy_y = Fin 0\<rparr>\<rparr>
     \<lparr>n_id = ''b'', n_position = Some \<lparr>xy_x = Fin 100, xy_y = Fin 100\<rparr>\<rparr>
   = \<lparr>sourceHandle = ''a-source-bottom'', targetHandle = ''b-target-top''\<rparr>"
  using calculateOptimalConnection_sides
    [of "\<lparr>n_id = ''a'', n_position = Some \<lparr>xy_x = Fin 0, xy_y = Fin 0\<rparr>\<rparr>"
        "\<lparr>xy_x = Fin 0, xy_y = Fin 0\<rparr>"
        "\<lparr>n_id = ''b'', n_position = Some \<lparr>xy_x = Fin 100, xy_y = Fin 100\<rparr>\<rparr>"
        "\<lparr>xy_x = Fin 100, xy_y = Fin 100\<rparr>"]
  by (simp add: displacementX_def displacementY_def centerX_def centerY_def jsub_def jgt_def
      sides_def)

section \<open>The hierarchical layout\<close>

text \<open>The y-coordinate the layout gives a table.\<close>

definition yOf :: "(string \<rightharpoonup> LayoutPosition) option \<Rightarrow> string \<Rightarrow> jsnum option" where
  "yOf r name = (case r of None \<Rightarrow> None | Some positions \<Rightarrow> map_option lp_y (positions name))"

definition tableNamed :: "string \<Rightarrow> Table" where
  "tableNamed n = \<lparr>t_name = n, t_columns = [], t_primaryKeys = [], t_foreignKeys = [], t_indexes = []\<rparr>"

lemma dependenciesOf_two:
  assumes "a \<noteq> b" "map t_name tbls = [a, b] \<or> map t_name tbls = [b, a]"
    "relationships (schema this) = [rel]" "r_from rel = a" "r_to rel = b"
  shows "dependenciesOf this tbls = [a \<mapsto> [b], b \<mapsto> []]"
  using assms
  by (auto simp: dependenciesOf_def addDependency_def setAdd_def map_eq_Cons_conv)

lemma nextLevelOf_two:
  assumes "a \<noteq> b" "map t_name tbls = [a, b] \<or> map t_name tbls = [b, a]"
  shows "nextLevelOf [a \<mapsto> [b], b \<mapsto> []] tbls [b] = [a]"
proof -
  from assms(2) obtain t1 t2 where tbls: "tbls = [t1, t2]"
    and names: "t_name t1 = a \<and> t_name t2 = b \<or> t_name t1 = b \<and> t_name t2 = a"
    by (auto simp: map_eq_Cons_conv)
  from names assms(1) show ?thesis
    unfolding tbls nextLevelOf_def Let_def by auto
qed

lemma buildLevels_two:
  assumes "a \<noteq> b" "map t_name tbls = [a, b] \<or> map t_name tbls = [b, a]"
  shows "buildLevels [a \<mapsto> [b], b \<mapsto> []] tbls [b] [[b]] = Some [[b], [a]]"
proof -
  from assms(2) have len: "length tbls = 2"
    by (metis length_map length_Cons list.size(3) numeral_2_eq_2)
  have "buildLevels [a \<mapsto> [b], b \<mapsto> []] tbls [b] [[b]] =
        buildLevels [a \<mapsto> [b], b \<mapsto> []] tbls [b, a] [[b], [a]]"
    using assms(1)
    by (subst buildLevels.simps) (simp add: len nextLevelOf_two [OF assms] setAdd_def Let_def)
  also have "\<dots> = Some [[b], [a]]"
    by (subst buildLevels.simps) (simp add: len)
  finally show ?thesis .
qed

lemma placeLevel_single:
  "placeLevel cfg w positions ([n], i) =
     positions (n \<mapsto> \<lparr>lp_x = jadd (jadd (jsub (padding cfg)
          (jdiv (jmul (jsub (num 1) (Fin 1)) (spacing cfg)) (Fin 2))) (jmul (num 0) (spacing cfg)))
          (jdiv w (Fin 2)),
        lp_y = jadd (jmul (num i) (jmul (spacing cfg) (literal (12 / 10)))) (padding cfg)\<rparr>)"
  by (simp add: placeLevel_def Let_def upt_rec)

lemma hierarchicalLayout_two_levels:
  assumes "a \<noteq> b" and "map t_name tbls = [a, b] \<or> map t_name tbls = [b, a]"
    and "relationships (schema this) = [rel]" and "r_from rel = a" and "r_to rel = b"
  shows "hierarchicalLayout this w tbls =
     Some (foldl (placeLevel (config this) w) Map.empty [([b], 0), ([a], 1)])"
proof -
  from assms(2) obtain t1 t2 where tbls: "tbls = [t1, t2]"
    and names: "t_name t1 = a \<and> t_name t2 = b \<or> t_name t1 = b \<and> t_name t2 = a"
    by (auto simp: map_eq_Cons_conv)
  have roots: "map t_name (filter (\<lambda>table. case [a \<mapsto> [b], b \<mapsto> []] (t_name table) of
                                 None \<Rightarrow> False | Some deps \<Rightarrow> length deps = 0) tbls) = [b]"
    using assms(1) tbls names by auto
  have nonempty: "0 < length (filter (\<lambda>table. case [a \<mapsto> [b], b \<mapsto> []] (t_name table) of
                                 None \<Rightarrow> False | Some deps \<Rightarrow> length deps = 0) tbls)"
    using assms(1) tbls names by auto
  have upt: "[0 ..< length [[b], [a]]] = [0, 1]"
    by (simp add: upt_rec)
  show ?thesis
    unfolding hierarchicalLayout_def dependenciesOf_two [OF assms] Let_def roots
    by (simp only: nonempty if_True foldl.simps setAdd_def list.set empty_iff if_False append.simps
        buildLevels_two [OF assms(1,2)] option.case upt zip.simps list.case)
qed


text \<open>The distance between two levels for the spacing 450 and for the spacing 300 (the
  literal 1.2 is 6 / 5).\<close>

lemma levelSpacing_450: "jmul (Fin 450) (literal (6 / 5)) = Fin 540"
  using round64_near [of 9 "450 * (5404319552844595 / 4503599627370496)" "- 43" "540 * 2 ^ 43"]
  by (simp add: literal_6_5 pow2_def)

lemma levelSpacing_300: "jmul (Fin 300) (literal (6 / 5)) = Fin 360"
  using round64_near [of 8 "300 * (5404319552844595 / 4503599627370496)" "- 44" "360 * 2 ^ 44"]
  by (simp add: literal_6_5 pow2_def)

text \<open>
  C4, as the specification has it: in a schema of two tables a and b with the one
  relationship from a to b, the hierarchical layout gives b a greater y-coordinate than a.
  It does not: tables without dependencies are the roots and make level 0, so with the
  spacing 450 and the padding 100 the table b is at y = 100 and the table a at y = 640.
\<close>

theorem hierarchicalLayout_counterexample:
  "yOf (hierarchicalLayout
          \<lparr>schema = \<lparr>tables = [tableNamed ''a'', tableNamed ''b''],
             relationships = [\<lparr>r_id = ''a-b-0'', r_from = ''a'', r_to = ''b'',
                               r_fromColumn = ''b_id'', r_toColumn = ''id''\<rparr>]\<rparr>,
           config = \<lparr>spacing = Fin 450, padding = Fin 100\<rparr>\<rparr>
          (Fin 1920) [tableNamed ''a'', tableNamed ''b'']) ''a'' = Some (Fin 640)
   \<and> yOf (hierarchicalLayout
          \<lparr>schema = \<lparr>tables = [tableNamed ''a'', tableNamed ''b''],
             relationships = [\<lparr>r_id = ''a-b-0'', r_from = ''a'', r_to = ''b'',
                               r_fromColumn = ''b_id'', r_toColumn = ''id''\<rparr>]\<rparr>,
           config = \<lparr>spacing = Fin 450, padding = Fin 100\<rparr>\<rparr>
          (Fin 1920) [tableNamed ''a'', tableNamed ''b'']) ''b'' = Some (Fin 100)
   \<and> \<not> jgt (Fin 100) (Fin 640)"
proof -
  have "hierarchicalLayout
          \<lparr>schema = \<lparr>tables = [tableNamed ''a'', tableNamed ''b''],
             relationships = [\<lparr>r_id = ''a-b-0'', r_from = ''a'', r_to = ''b'',
                               r_fromColumn = ''b_id'', r_toColumn = ''id''\<rparr>]\<rparr>,
           config = \<lparr>spacing = Fin 450, padding = Fin 100\<rparr>\<rparr>
          (Fin 1920) [tableNamed ''a'', tableNamed ''b'']
        = Some (foldl (placeLevel \<lparr>spacing = Fin 450, padding = Fin 100\<rparr> (Fin 1920)) Map.empty
                  [([''b''], 0), ([''a''], 1)])"
    using hierarchicalLayout_two_levels
      [of "''a''" "''b''" "[tableNamed ''a'', tableNamed ''b'']"
          "\<lparr>schema = \<lparr>tables = [tableNamed ''a'', tableNamed ''b''],
             relationships = [\<lparr>r_id = ''a-b-0'', r_from = ''a'', r_to = ''b'',
                               r_fromColumn = ''b_id'', r_toColumn = ''id''\<rparr>]\<rparr>,
           config = \<lparr>spacing = Fin 450, padding = Fin 100\<rparr>\<rparr>"
          "\<lparr>r_id = ''a-b-0'', r_from = ''a'', r_to = ''b'',
                               r_fromColumn = ''b_id'', r_toColumn = ''id''\<rparr>"
          "Fin 1920"]
    by (simp add: tableNamed_def)
  then show ?thesis
    by (simp add: yOf_def placeLevel_single num_def jgt_def levelSpacing_450)
qed

text \<open>The y of a is not always greater than the y of b: with the spacing 450 and the
  padding \<open>pow2 67\<close> the distance 540 between the levels is less than half a unit in
  the last place of the padding, and both tables get the y of the padding.\<close>

lemma level_absorbed: "jadd (Fin 540) (Fin (pow2 67)) = Fin (pow2 67)"
  using round64_near [of 67 "540 + pow2 67" 15 "2 ^ 52"]
  by (simp add: pow2_def)

text \<open>
  C4, amended: in a schema of two tables a and b (in either order) with the one
  relationship from a to b, with a positive spacing and a padding that are finite numbers,
  and with a finite distance l between two levels (the spacing times 1.2, rounded), the
  hierarchical layout puts b on level 0, at y = padding, and a on level 1, at
  y = l + padding, rounded. The distance l is not less than the spacing, and the y of a is
  never less than the y of b; it is at least padding + 1, so greater than the y of b, when
  the spacing is at least 1 and padding + 1 is a number too.
\<close>

theorem hierarchicalLayout_two_tables:
  assumes "a \<noteq> b"
    and "map t_name (tables (schema this)) = [a, b] \<or> map t_name (tables (schema this)) = [b, a]"
    and "relationships (schema this) = [rel]" and "r_from rel = a" and "r_to rel = b"
    and "spacing (config this) = Fin s" and "isDouble s" and "0 < s"
    and "padding (config this) = Fin p" and "isDouble p"
    and "jmul (Fin s) (literal (12 / 10)) = Fin l"
  shows "yOf (hierarchicalLayout this w (tables (schema this))) b = Some (Fin p)
       \<and> yOf (hierarchicalLayout this w (tables (schema this))) a = Some (jadd (Fin l) (Fin p))
       \<and> s \<le> l
       \<and> \<not> jlt (jadd (Fin l) (Fin p)) (Fin p)
       \<and> (1 \<le> s \<and> isDouble (p + 1) \<longrightarrow>
            \<not> jlt (jadd (Fin l) (Fin p)) (Fin (p + 1)) \<and> jlt (Fin p) (jadd (Fin l) (Fin p)))"
proof -
  from assms(11) have rl: "round64 (s * (5404319552844595 / 4503599627370496)) = Fin l"
    unfolding literal_12 by (simp only: jmul.simps)
  from round64_isDouble [OF rl] have dl: "round64 l = Fin l" by (simp add: isDouble_def)
  from assms(10) have dp: "round64 p = Fin p" by (simp add: isDouble_def)
  from assms(8) have "s \<le> s * (5404319552844595 / 4503599627370496)" by simp
  from round64_ge [OF assms(7) this, unfolded rl] have sl: "s \<le> l" by simp
  have yb: "yOf (hierarchicalLayout this w (tables (schema this))) b = Some (Fin p)"
    using assms(1,6,9,11)
    by (simp add: hierarchicalLayout_two_levels [OF assms(1-5)] yOf_def placeLevel_single num_def dp)
  have ya: "yOf (hierarchicalLayout this w (tables (schema this))) a = Some (jadd (Fin l) (Fin p))"
    using assms(1,6,9,11)
    by (simp add: hierarchicalLayout_two_levels [OF assms(1-5)] yOf_def placeLevel_single num_def dl)
  from sl assms(8) have "p \<le> l + p" by simp
  from round64_ge [OF assms(10) this] have ge: "\<not> jlt (jadd (Fin l) (Fin p)) (Fin p)" by simp
  have strict: "\<not> jlt (jadd (Fin l) (Fin p)) (Fin (p + 1)) \<and> jlt (Fin p) (jadd (Fin l) (Fin p))"
    if one: "1 \<le> s" and d1: "isDouble (p + 1)"
  proof -
    from one sl have "p + 1 \<le> l + p" by simp
    from round64_ge [OF d1 this] have a: "\<not> jlt (round64 (l + p)) (Fin (p + 1))" .
    then have "jlt (Fin p) (round64 (l + p))"
      by (cases "round64 (l + p)") auto
    with a show ?thesis by simp
  qed
  from yb ya sl ge strict show ?thesis by blast
qed

theorem hierarchicalLayout_two_tables_witness:
  "yOf (hierarchicalLayout
          \<lparr>schema = \<lparr>tables = [tableNamed ''users'', tableNamed ''orders''],
             relationships = [\<lparr>r_id = ''orders-users-0'', r_from = ''orders'', r_to = ''users'',
                               r_fromColumn = ''user_id'', r_toColumn = ''id''\<rparr>]\<rparr>,
           config = \<lparr>spacing = Fin 300, padding = Fin 50\<rparr>\<rparr>
          (Fin 1024) [tableNamed ''users'', tableNamed ''orders'']) ''users'' = Some (Fin 50)
   \<and> yOf (hierarchicalLayout
          \<lparr>schema = \<lparr>tables = [tableNamed ''users'', tableNamed ''orders''],
             relationships = [\<lparr>r_id = ''orders-users-0'', r_from = ''orders'', r_to = ''users'',
                               r_fromColumn = ''user_id'', r_toColumn = ''id''\<rparr>]\<rparr>,
           config = \<lparr>spacing = Fin 300, padding = Fin 50\<rparr>\<rparr>
          (Fin 1024) [tableNamed ''users'', tableNamed ''orders'']) ''orders'' = Some (Fin 410)
   \<and> jlt (Fin 50) (Fin 410)"
  using hierarchicalLayout_two_tables
    [of "''orders''" "''users''"
        "\<lparr>schema = \<lparr>tables = [tableNamed ''users'', tableNamed ''orders''],
             relationships = [\<lparr>r_id = ''orders-users-0'', r_from = ''orders'', r_to = ''users'',
                               r_fromColumn = ''user_id'', r_toColumn = ''id''\<rparr>]\<rparr>,
           config = \<lparr>spacing = Fin 300, padding = Fin 50\<rparr>\<rparr>"
        "\<lparr>r_id = ''orders-users-0'', r_from = ''orders'', r_to = ''users'',
                               r_fromColumn = ''user_id'', r_toColumn = ''id''\<rparr>"
        300 50 360 "Fin 1024"]
  by (simp add: tableNamed_def isDouble_def levelSpacing_300)

section \<open>The resolution of overlaps\<close>

text \<open>The position of a table in the result of resolveOverlaps, and the value of
  \<^verbatim>\<open>iteration\<close> at which the loop ended.\<close>

definition positionOf :: "error + (string \<rightharpoonup> addr) \<times> heap \<Rightarrow> string \<Rightarrow> LayoutPosition option" where
  "positionOf r name =
     (case r of Inl e \<Rightarrow> None | Inr (positions, h) \<Rightarrow> map_option h (positions name))"

definition exitIteration :: "error + heap \<times> nat \<Rightarrow> nat option" where
  "exitIteration r = (case r of Inl e \<Rightarrow> None | Inr (h, iteration) \<Rightarrow> Some iteration)"

definition origin :: LayoutPosition where
  "origin = \<lparr>lp_x = Fin 0, lp_y = Fin 0\<rparr>"

text \<open>A round that ends with the flag unset has moved nothing, and has found no pair of
  tables with different names closer than the minimum distance.\<close>

lemma overlapStep_flag:
  "overlapStep md positions (h, True) pair = Inr (h', b) \<Longrightarrow> b"
  by (auto simp: overlapStep_def Let_def split: prod.splits option.splits if_splits)

lemma foldE_overlapStep_flag:
  "foldE (overlapStep md positions) (h, True) pairs = Inr (h', b) \<Longrightarrow> b"
proof (induction pairs arbitrary: h)
  case Nil
  then show ?case by simp
next
  case (Cons pair pairs)
  then show ?case
  proof (cases "overlapStep md positions (h, True) pair")
    case (Inl e)
    with Cons.prems show ?thesis by simp
  next
    case (Inr st)
    obtain h1 b1 where st: "st = (h1, b1)" by (cases st)
    from Inr st overlapStep_flag have "b1" by blast
    with Cons Inr st show ?thesis by simp
  qed
qed

lemma overlapStep_quiet:
  assumes "overlapStep md positions (h, False) (t1, t2) = Inr (h', False)"
  shows "h' = h \<and> (t_name t1 \<noteq> t_name t2 \<longrightarrow>
     (\<exists>a1 a2. positions (t_name t1) = Some a1 \<and> positions (t_name t2) = Some a2
        \<and> \<not> jlt (distanceOf (h a1) (h a2)) md))"
  using assms
  by (auto simp: overlapStep_def distanceOf_def Let_def split: option.splits if_splits)

lemma foldE_overlapStep_quiet:
  assumes "foldE (overlapStep md positions) (h, False) pairs = Inr (h', False)"
  shows "h' = h \<and> (\<forall>(t1, t2)\<in>set pairs. t_name t1 \<noteq> t_name t2 \<longrightarrow>
     (\<exists>a1 a2. positions (t_name t1) = Some a1 \<and> positions (t_name t2) = Some a2
        \<and> \<not> jlt (distanceOf (h a1) (h a2)) md))"
  using assms
proof (induction pairs)
  case Nil
  then show ?case by simp
next
  case (Cons pair pairs)
  obtain t1 t2 where pair: "pair = (t1, t2)" by (cases pair)
  show ?case
  proof (cases "overlapStep md positions (h, False) pair")
    case (Inl e)
    with Cons.prems show ?thesis by simp
  next
    case (Inr st)
    obtain h1 b1 where st: "st = (h1, b1)" by (cases st)
    from Cons.prems Inr st have rest: "foldE (overlapStep md positions) (h1, b1) pairs = Inr (h', False)"
      by simp
    have "\<not> b1"
    proof
      assume b1
      with rest foldE_overlapStep_flag [of md positions h1 pairs h' False] show False by simp
    qed
    with Inr st pair overlapStep_quiet [of md positions h t1 t2 h1] have
      h1: "h1 = h" and q: "t_name t1 \<noteq> t_name t2 \<longrightarrow>
     (\<exists>a1 a2. positions (t_name t1) = Some a1 \<and> positions (t_name t2) = Some a2
        \<and> \<not> jlt (distanceOf (h a1) (h a2)) md)"
      by auto
    from rest \<open>\<not> b1\<close> h1 Cons.IH have "h' = h \<and> (\<forall>(t1, t2)\<in>set pairs. t_name t1 \<noteq> t_name t2 \<longrightarrow>
     (\<exists>a1 a2. positions (t_name t1) = Some a1 \<and> positions (t_name t2) = Some a2
        \<and> \<not> jlt (distanceOf (h a1) (h a2)) md))" by simp
    with q pair show ?thesis by simp
  qed
qed

lemma resolveLoop_break:
  assumes "resolveLoop md positions tbls iteration h = Inr (h', iteration')" and "iteration' < 50"
  shows "overlapSweep md positions tbls h' = Inr (h', False)"
  using assms
proof (induction md positions tbls iteration h rule: resolveLoop.induct)
  case (1 md positions tbls iteration h)
  show ?case
  proof (cases "iteration < 50")
    case False
    with "1.prems" show ?thesis by (simp add: resolveLoop.simps [of _ _ _ iteration])
  next
    case True
    show ?thesis
    proof (cases "overlapSweep md positions tbls h")
      case (Inl e)
      with True "1.prems" show ?thesis by (simp add: resolveLoop.simps [of _ _ _ iteration])
    next
      case (Inr st)
      obtain h1 b1 where st: "st = (h1, b1)" by (cases st)
      show ?thesis
      proof (cases b1)
        case False
        with True Inr st "1.prems" have "h' = h1"
          by (simp add: resolveLoop.simps [of _ _ _ iteration])
        moreover from Inr st False foldE_overlapStep_quiet [of md positions h "List.product tbls tbls" h1]
        have "h1 = h" by (simp add: overlapSweep_def)
        ultimately show ?thesis using Inr st False by simp
      next
        case b: True
        with True Inr st "1.prems" have "resolveLoop md positions tbls (iteration + 1) h1 = Inr (h', iteration')"
          by (simp add: resolveLoop.simps [of _ _ _ iteration])
        moreover from b have "\<not> \<not> b1" by simp
        ultimately show ?thesis
          using "1.IH" [of st h1 b1] True Inr st "1.prems"(2) by simp
      qed
    qed
  qed
qed

text \<open>When the loop ends before its cap, no two tables with different names are closer
  than the minimum distance, as the comparison of the language sees it: the distance is
  not less than the minimum. It is at least the minimum unless it is NaN.\<close>

lemma resolveLoop_early:
  assumes "resolveLoop md positions tbls 0 h = Inr (h', iteration')" and "iteration' < 50"
    and "t1 \<in> set tbls" and "t2 \<in> set tbls" and "t_name t1 \<noteq> t_name t2"
  shows "\<exists>a1 a2. positions (t_name t1) = Some a1 \<and> positions (t_name t2) = Some a2
        \<and> \<not> jlt (distanceOf (h' a1) (h' a2)) md"
proof -
  from resolveLoop_break [OF assms(1,2)]
  have "foldE (overlapStep md positions) (h', False) (List.product tbls tbls) = Inr (h', False)"
    by (simp add: overlapSweep_def)
  from foldE_overlapStep_quiet [OF this] assms(3,4,5) show ?thesis by auto
qed

lemma jge_not_jlt: "a \<noteq> NaN \<Longrightarrow> b \<noteq> NaN \<Longrightarrow> jge a b = (\<not> jlt a b)"
  by (cases a; cases b) simp_all

text \<open>Two tables at the same position, with the minimum distance 450 * 0.7 = 315: the
  first round divides zero by zero and moves both tables to NaN, the second round finds
  no distance below the minimum.\<close>

lemma overlapSweep_coincident:
  "overlapSweep (Fin 315) [''a'' \<mapsto> 10, ''b'' \<mapsto> 20] [tableNamed ''a'', tableNamed ''b'']
     (\<lambda>a. origin)
   = Inr ((\<lambda>a. origin)(10 := \<lparr>lp_x = NaN, lp_y = NaN\<rparr>, 20 := \<lparr>lp_x = NaN, lp_y = NaN\<rparr>), True)"
  by (simp add: overlapSweep_def overlapStep_def tableNamed_def origin_def Let_def jsub_def
      sqrt64_def)

lemma overlapSweep_NaN:
  "overlapSweep (Fin 315) [''a'' \<mapsto> 10, ''b'' \<mapsto> 20] [tableNamed ''a'', tableNamed ''b'']
     ((\<lambda>a. origin)(10 := \<lparr>lp_x = NaN, lp_y = NaN\<rparr>, 20 := \<lparr>lp_x = NaN, lp_y = NaN\<rparr>))
   = Inr ((\<lambda>a. origin)(10 := \<lparr>lp_x = NaN, lp_y = NaN\<rparr>, 20 := \<lparr>lp_x = NaN, lp_y = NaN\<rparr>), False)"
  by (simp add: overlapSweep_def overlapStep_def tableNamed_def origin_def Let_def jsub_def
      sqrt64_def)

lemma minDistance_450: "jmul (Fin 450) (literal (7 / 10)) = Fin 315"
  using round64_near [of 8 "450 * (3152519739159347 / 4503599627370496)" "- 44" "315 * 2 ^ 44"]
  by (simp add: literal_7 pow2_def)

lemma resolveLoop_coincident:
  "resolveLoop (Fin 315) [''a'' \<mapsto> 10, ''b'' \<mapsto> 20] [tableNamed ''a'', tableNamed ''b''] 0
     (\<lambda>a. origin)
   = Inr ((\<lambda>a. origin)(10 := \<lparr>lp_x = NaN, lp_y = NaN\<rparr>, 20 := \<lparr>lp_x = NaN, lp_y = NaN\<rparr>), 1)"
  by (simp add: resolveLoop.simps [of _ _ _ 0] resolveLoop.simps [of _ _ _ "Suc 0"]
      overlapSweep_coincident overlapSweep_NaN)

text \<open>
  C7. The result of resolveOverlaps has every two tables at least the minimum distance
  spacing * 0.7 apart, or the loop has run its 50 rounds. The code misses this for two
  tables at the same position: with the spacing 450 the loop ends after its second round
  (the value of \<^verbatim>\<open>iteration\<close> is 1), both tables are at (NaN, NaN), and their distance,
  NaN, is not at least 315.
\<close>

theorem resolveOverlaps_coincident:
  "positionOf (resolveOverlaps
       \<lparr>schema = \<lparr>tables = [tableNamed ''a'', tableNamed ''b''], relationships = []\<rparr>,
        config = \<lparr>spacing = Fin 450, padding = Fin 100\<rparr>\<rparr>
       [tableNamed ''a'', tableNamed ''b''] [''a'' \<mapsto> 10, ''b'' \<mapsto> 20] (\<lambda>a. origin)) ''a''
     = Some \<lparr>lp_x = NaN, lp_y = NaN\<rparr>
   \<and> positionOf (resolveOverlaps
       \<lparr>schema = \<lparr>tables = [tableNamed ''a'', tableNamed ''b''], relationships = []\<rparr>,
        config = \<lparr>spacing = Fin 450, padding = Fin 100\<rparr>\<rparr>
       [tableNamed ''a'', tableNamed ''b''] [''a'' \<mapsto> 10, ''b'' \<mapsto> 20] (\<lambda>a. origin)) ''b''
     = Some \<lparr>lp_x = NaN, lp_y = NaN\<rparr>
   \<and> exitIteration (resolveLoop (jmul (Fin 450) (literal (7 / 10))) [''a'' \<mapsto> 10, ''b'' \<mapsto> 20]
       [tableNamed ''a'', tableNamed ''b''] 0 (\<lambda>a. origin)) = Some 1
   \<and> \<not> jge (distanceOf \<lparr>lp_x = NaN, lp_y = NaN\<rparr> \<lparr>lp_x = NaN, lp_y = NaN\<rparr>)
            (jmul (Fin 450) (literal (7 / 10)))"
  by (simp add: resolveOverlaps_def positionOf_def exitIteration_def Let_def distanceOf_def
      jsub_def minDistance_450 resolveLoop_coincident)

section \<open>The parser returns\<close>

text \<open>A match of a regular expression that starts with a literal is not empty, so the
  four loops over \<^verbatim>\<open>regex.exec\<close> end.\<close>

lemma m_Chars_consumes:
  assumes "m (Seq (Chars (a # as)) r) (p, s, c) Some = Some st'"
  shows "length (fst (snd st')) < length s"
proof -
  from assms obtain p1 s1 where l: "lit (a # as) p s = Some (p1, s1)"
    and r: "m r (p1, s1, c) Some = Some st'"
    by (auto split: option.splits)
  from lit_length [OF l] have "length s1 < length s" by simp
  moreover from m_cont [OF r] have "length (fst (snd st')) \<le> length s1" by auto
  ultimately show ?thesis by simp
qed

lemma search_nonempty:
  assumes "\<And>p s c st'. m r (p, s, c) Some = Some st' \<Longrightarrow> length (fst (snd st')) < length s"
  shows "search r pre p s = Some mt \<Longrightarrow> m_text mt \<noteq> []"
proof (induction s arbitrary: pre p)
  case Nil
  then show ?case using assms [of p "[]" Map.empty] by (auto split: option.splits)
next
  case (Cons x xs)
  show ?case
  proof (cases "m r (p, x # xs, Map.empty) Some")
    case None
    with Cons.prems have "search r (x # pre) (Some x) xs = Some mt" by simp
    from Cons.IH [OF this] show ?thesis .
  next
    case (Some st)
    obtain p' s' c' where st: "st = (p', s', c')" by (cases st) auto
    from assms [OF Some] st have "length s' < length (x # xs)" by simp
    with Some st Cons.prems show ?thesis by auto
  qed
qed

lemma execAll_total:
  assumes "\<And>p s c st'. m r (p, s, c) Some = Some st' \<Longrightarrow> length (fst (snd st')) < length s"
  shows "\<exists>ms. execAll r p s = Some ms"
proof (induction "length s" arbitrary: p s rule: less_induct)
  case less
  show ?case
  proof (cases "exec r p s")
    case None
    then show ?thesis by (subst execAll.simps) simp
  next
    case (Some mt)
    then have ne: "m_text mt \<noteq> []"
      using search_nonempty [OF assms] by (simp add: exec_def)
    from exec_rest(1) [OF Some ne] less obtain ms where
      "execAll r (m_prev mt) (m_rest mt) = Some ms" by blast
    with Some ne show ?thesis by (subst execAll.simps) simp
  qed
qed

lemma consumes_createTable:
  "m createTableRegex (p, s, c) Some = Some st' \<Longrightarrow> length (fst (snd st')) < length s"
  unfolding createTableRegex_def seq_def foldr.simps o_apply by (rule m_Chars_consumes)

lemma consumes_index:
  "m indexRegex (p, s, c) Some = Some st' \<Longrightarrow> length (fst (snd st')) < length s"
  unfolding indexRegex_def seq_def foldr.simps o_apply by (rule m_Chars_consumes)

lemma consumes_alterFk:
  "m alterFkRegex (p, s, c) Some = Some st' \<Longrightarrow> length (fst (snd st')) < length s"
  unfolding alterFkRegex_def alterHead_def seq_def append.simps foldr.simps o_apply
  by (rule m_Chars_consumes)

lemma consumes_alterFk2:
  "m alterFkRegex2 (p, s, c) Some = Some st' \<Longrightarrow> length (fst (snd st')) < length s"
  unfolding alterFkRegex2_def alterHead_def seq_def append.simps foldr.simps o_apply
  by (rule m_Chars_consumes)

lemma execAll_createTable: "\<exists>ms. execAll createTableRegex p s = Some ms"
  by (rule execAll_total) (rule consumes_createTable)

lemma execAll_index: "\<exists>ms. execAll indexRegex p s = Some ms"
  by (rule execAll_total) (rule consumes_index)

lemma execAll_alterFk: "\<exists>ms. execAll alterFkRegex p s = Some ms"
  by (rule execAll_total) (rule consumes_alterFk)

lemma execAll_alterFk2: "\<exists>ms. execAll alterFkRegex2 p s = Some ms"
  by (rule execAll_total) (rule consumes_alterFk2)

lemma extractIndexes_total: "\<exists>indexes. extractIndexes sql = Some indexes"
  using execAll_index [of None sql]
  by (auto simp: extractIndexes_def)

lemma extractCreateTableStatements_total: "\<exists>sts. extractCreateTableStatements sql = Some sts"
  using execAll_createTable [of None sql]
  by (auto simp: extractCreateTableStatements_def)

lemma preprocessPostgreSQL_total: "\<exists>t. preprocessPostgreSQL sql = Some t"
  using extractCreateTableStatements_total [of sql]
  by (auto simp: preprocessPostgreSQL_def Let_def)

lemma parseSQL_try_throws:
  "parseSQL_try sql = Some (Inl (Error ''Forcing regex parsing for PostgreSQL schema''))"
  using extractIndexes_total [of sql] preprocessPostgreSQL_total [of sql]
  by (auto simp: parseSQL_try_def)

lemma parseSQL_fallback: "parseSQL sql = fallbackRegexParsing sql"
  by (simp add: parseSQL_def parseSQL_try_throws)

lemma parseAlterTableForeignKeys_total:
  "\<exists>st'. parseAlterTableForeignKeys sql st = Some st'"
  using execAll_alterFk [of None sql] execAll_alterFk2 [of None sql]
  by (auto simp: parseAlterTableForeignKeys_def)

lemma fallbackRegexParsing_total: "\<exists>schema. fallbackRegexParsing sql = Some schema"
proof -
  obtain indexes where i: "extractIndexes sql = Some indexes"
    using extractIndexes_total by blast
  obtain ms where ms: "execAll createTableRegex None sql = Some ms"
    using execAll_createTable by blast
  obtain st' where st: "parseAlterTableForeignKeys sql (foldl addTable ([], []) ms) = Some st'"
    using parseAlterTableForeignKeys_total by blast
  show ?thesis
    by (cases st') (simp add: fallbackRegexParsing_def i ms st)
qed

lemma applyAlterFk_no_tables: "applyAlterFk ([], rels) mt = ([], rels)"
  by (simp add: applyAlterFk_def Let_def)

lemma foldl_applyAlterFk_no_tables: "foldl applyAlterFk ([], rels) ms = ([], rels)"
  by (induction ms) (simp_all add: applyAlterFk_no_tables)

lemma associateIndexesWithTables_no_tables: "associateIndexesWithTables [] indexes = []"
  by (induction indexes) (simp_all add: associateIndexesWithTables_def associateIndex_def)

lemma execAll_no_match: "\<not> test r s \<Longrightarrow> execAll r None s = Some []"
  by (subst execAll.simps) (simp add: test_def match_def)


text \<open>
  C1. parseSQL returns a schema for every input: the exception of its \<^verbatim>\<open>try\<close> block is
  caught, the fallback throws nothing and its loops end. For an input in which the regular
  expression for CREATE TABLE statements matches nowhere, the schema has no tables and no
  relationships (so no relationship of an ALTER TABLE statement and no index survive).
\<close>

theorem parseSQL_returns:
  "(\<exists>schema. parseSQL sql = Some schema)
   \<and> (\<not> test createTableRegex sql \<longrightarrow> parseSQL sql = Some \<lparr>tables = [], relationships = []\<rparr>)"
proof -
  have "parseSQL sql = Some \<lparr>tables = [], relationships = []\<rparr>" if "\<not> test createTableRegex sql"
  proof -
    obtain indexes where i: "extractIndexes sql = Some indexes"
      using extractIndexes_total by blast
    obtain ms1 where ms1: "execAll alterFkRegex None sql = Some ms1"
      using execAll_alterFk by blast
    obtain ms2 where ms2: "execAll alterFkRegex2 None sql = Some ms2"
      using execAll_alterFk2 by blast
    show ?thesis
      by (simp add: parseSQL_fallback fallbackRegexParsing_def i execAll_no_match [OF that]
          parseAlterTableForeignKeys_def ms1 ms2 foldl_applyAlterFk_no_tables
          associateIndexesWithTables_no_tables)
  qed
  then show ?thesis
    using fallbackRegexParsing_total [of sql] by (simp add: parseSQL_fallback)
qed


theorem parseSQL_returns_witness:
  "\<not> test createTableRegex ''CREATE UNIQUE INDEX idx_email ON users (email); ALTER TABLE order_items ADD FOREIGN KEY (order_id) REFERENCES orders(id);''
   \<and> parseSQL ''CREATE UNIQUE INDEX idx_email ON users (email); ALTER TABLE order_items ADD FOREIGN KEY (order_id) REFERENCES orders(id);''
       = Some \<lparr>tables = [], relationships = []\<rparr>"
proof -
  have "\<not> test createTableRegex ''CREATE UNIQUE INDEX idx_email ON users (email); ALTER TABLE order_items ADD FOREIGN KEY (order_id) REFERENCES orders(id);''"
    by code_simp
  with parseSQL_returns [of "''CREATE UNIQUE INDEX idx_email ON users (email); ALTER TABLE order_items ADD FOREIGN KEY (order_id) REFERENCES orders(id);''"]
  show ?thesis by blast
qed

section \<open>Two runs of the parser\<close>





section \<open>A column with an inline REFERENCES\<close>

text \<open>A clause that contains REFERENCES in upper case never adds a column, whichever of
  the first two branches takes it.\<close>

lemma parseLine_references_columns:
  "includesStr line ''REFERENCES'' \<Longrightarrow>
   fst (parseLine (columns, primaryKeys, foreignKeys) line) = columns"
  by (simp add: parseLine_def split: option.splits)

text \<open>The third branch is the one that adds a column, and it looks for an inline
  REFERENCES itself, in any case: a clause with \<^verbatim>\<open>references\<close> in lower case gets there,
  and gives the column and the foreign key.\<close>

lemma parseSQL_lower_case_references:
  "parseSQL ''CREATE TABLE orders (id INTEGER PRIMARY KEY, user_id INTEGER references users(id));''
   = Some \<lparr>tables =
       [\<lparr>t_name = ''orders'',
         t_columns = [\<lparr>c_name = ''id'', c_type = ''INTEGER'', c_nullable = True,
                       c_isPrimary = True, c_isForeign = False\<rparr>,
                      \<lparr>c_name = ''user_id'', c_type = ''INTEGER'', c_nullable = True,
                       c_isPrimary = False, c_isForeign = True\<rparr>],
         t_primaryKeys = [''id''],
         t_foreignKeys = [\<lparr>fk_column = ''user_id'', fk_referencedTable = ''users'',
                           fk_referencedColumn = ''id''\<rparr>],
         t_indexes = []\<rparr>],
      relationships =
       [\<lparr>r_id = ''orders-users-0'', r_from = ''orders'', r_to = ''users'',
         r_fromColumn = ''user_id'', r_toColumn = ''id''\<rparr>]\<rparr>"
  unfolding parseSQL_fallback by code_simp

text \<open>
  C3. A clause of a CREATE TABLE body that defines a column with an inline REFERENCES gives
  a foreign key and a column entry. The code misses the column entry: a clause that
  contains REFERENCES in upper case is taken by the second branch of the loop, which
  records the foreign key only. Here the table gets the column \<open>id\<close> and the foreign key of
  \<open>user_id\<close>, and no column \<open>user_id\<close>.
\<close>

theorem parseSQL_inline_references:
  "parseSQL ''CREATE TABLE orders (id INTEGER PRIMARY KEY, user_id INTEGER REFERENCES users(id));''
   = Some \<lparr>tables =
       [\<lparr>t_name = ''orders'',
         t_columns = [\<lparr>c_name = ''id'', c_type = ''INTEGER'', c_nullable = True,
                       c_isPrimary = True, c_isForeign = False\<rparr>],
         t_primaryKeys = [''id''],
         t_foreignKeys = [\<lparr>fk_column = ''user_id'', fk_referencedTable = ''users'',
                           fk_referencedColumn = ''id''\<rparr>],
         t_indexes = []\<rparr>],
      relationships =
       [\<lparr>r_id = ''orders-users-0'', r_from = ''orders'', r_to = ''users'',
         r_fromColumn = ''user_id'', r_toColumn = ''id''\<rparr>]\<rparr>"
  unfolding parseSQL_fallback by code_simp

section \<open>The shape of the result\<close>

text \<open>The state after the three passes over the matches.\<close>

definition afterPasses :: "rmatch list \<Rightarrow> rmatch list \<Rightarrow> rmatch list \<Rightarrow> pstate" where
  "afterPasses ms ms1 ms2 =
     foldl applyAlterFk (foldl applyAlterFk (foldl addTable ([], []) ms) ms1) ms2"

lemma parseSQL_shape:
  "\<exists>indexes ms ms1 ms2.
      extractIndexes sql = Some indexes
    \<and> execAll createTableRegex None sql = Some ms
    \<and> execAll alterFkRegex None sql = Some ms1
    \<and> execAll alterFkRegex2 None sql = Some ms2
    \<and> parseSQL sql = Some \<lparr>tables = associateIndexesWithTables (fst (afterPasses ms ms1 ms2)) indexes,
                             relationships = snd (afterPasses ms ms1 ms2)\<rparr>"
proof -
  obtain indexes where i: "extractIndexes sql = Some indexes"
    using extractIndexes_total by blast
  obtain ms where ms: "execAll createTableRegex None sql = Some ms"
    using execAll_createTable by blast
  obtain ms1 where ms1: "execAll alterFkRegex None sql = Some ms1"
    using execAll_alterFk by blast
  obtain ms2 where ms2: "execAll alterFkRegex2 None sql = Some ms2"
    using execAll_alterFk2 by blast
  have "parseSQL sql = Some \<lparr>tables = associateIndexesWithTables (fst (afterPasses ms ms1 ms2)) indexes,
                             relationships = snd (afterPasses ms ms1 ms2)\<rparr>"
    by (simp add: parseSQL_fallback fallbackRegexParsing_def parseAlterTableForeignKeys_def
        i ms ms1 ms2 afterPasses_def split: prod.splits)
  with i ms ms1 ms2 show ?thesis by blast
qed


section \<open>Relationships and foreign keys\<close>

text \<open>A relationship without its id, and the same four values for a foreign key of a
  table.\<close>

type_synonym edge = "string \<times> string \<times> string \<times> string"

definition relEdge :: "Relationship \<Rightarrow> edge" where
  "relEdge r = (r_from r, r_to r, r_fromColumn r, r_toColumn r)"

definition fkEdge :: "string \<Rightarrow> ForeignKey \<Rightarrow> edge" where
  "fkEdge tableName fk = (tableName, fk_referencedTable fk, fk_column fk, fk_referencedColumn fk)"

definition fkEdges :: "Table \<Rightarrow> edge list" where
  "fkEdges table = map (fkEdge (t_name table)) (t_foreignKeys table)"

definition edgesAgree :: "pstate \<Rightarrow> bool" where
  "edgesAgree st = (mset (map relEdge (snd st)) = mset (concat (map fkEdges (fst st))))"

lemma relEdge_foldl_pushRelationship:
  "map relEdge (foldl (pushRelationship n) rels fks) = map relEdge rels @ map (fkEdge n) fks"
  by (induction fks arbitrary: rels) (simp_all add: pushRelationship_def relEdge_def fkEdge_def)

lemma relEdge_extractRelationshipsRegex:
  "map relEdge (extractRelationshipsRegex table rels d) = map relEdge rels @ fkEdges table"
  by (simp add: extractRelationshipsRegex_def relEdge_foldl_pushRelationship fkEdges_def)

lemma edgesAgree_addTable:
  assumes "edgesAgree st"
  shows "edgesAgree (addTable st mt)"
proof (cases "parseTableDefinitionRegex (grp mt 1) (grp mt 2)")
  case None
  with assms show ?thesis by (simp add: addTable_def)
next
  case (Some table)
  have "mset (map relEdge (extractRelationshipsRegex table (snd st) (grp mt 2))) =
        mset (map relEdge (snd st)) + mset (fkEdges table)"
    by (simp only: relEdge_extractRelationshipsRegex mset_append)
  with assms Some show ?thesis
    by (simp add: addTable_def edgesAgree_def)
qed

lemma edgesAgree_foldl_addTable: "edgesAgree st \<Longrightarrow> edgesAgree (foldl addTable st ms)"
  by (induction ms arbitrary: st) (simp_all add: edgesAgree_addTable)

lemma findIndex_less: "findIndex pred xs = Some i \<Longrightarrow> i < length xs"
  by (induction xs arbitrary: i) (auto split: if_splits)

lemma mset_concat_update:
  "i < length xs \<Longrightarrow>
     mset (concat (map f (xs [i := y]))) + mset (f (xs ! i)) = mset (concat (map f xs)) + mset (f y)"
proof (induction xs arbitrary: i)
  case Nil
  then show ?case by simp
next
  case (Cons x xs)
  show ?case
  proof (cases i)
    case 0
    then show ?thesis by simp
  next
    case (Suc j)
    with Cons.prems have "j < length xs" by simp
    from Cons.IH [OF this] Suc show ?thesis by (simp add: ac_simps)
  qed
qed

lemma addAlterFk_length: "length (fst (addAlterFk ti refTable st cols)) = length (fst st)"
  by (simp add: addAlterFk_def Let_def split: prod.splits)

lemma edgesAgree_addAlterFk:
  assumes "ti < length (fst st)" and "edgesAgree st"
  shows "edgesAgree (addAlterFk ti refTable st cols)"
proof -
  obtain tbls rels where st: "st = (tbls, rels)" by (cases st)
  obtain fromColumn toColumn where cols: "cols = (fromColumn, toColumn)" by (cases cols)
  let ?t = "tbls ! ti"
  let ?fk = "\<lparr>fk_column = fromColumn, fk_referencedTable = refTable, fk_referencedColumn = toColumn\<rparr>"
  let ?t' = "?t\<lparr>t_foreignKeys := t_foreignKeys ?t @ [?fk],
               t_columns := markForeign fromColumn (t_columns ?t)\<rparr>"
  have e: "fkEdges ?t' = fkEdges ?t @ [(t_name ?t, refTable, fromColumn, toColumn)]"
    by (simp add: fkEdges_def fkEdge_def)
  from assms(1) st have "ti < length tbls" by simp
  from mset_concat_update [OF this, of fkEdges ?t'] e
  have "mset (concat (map fkEdges (tbls [ti := ?t']))) =
        mset (concat (map fkEdges tbls)) + {#(t_name ?t, refTable, fromColumn, toColumn)#}"
    by simp
  with assms(2) st cols show ?thesis
    by (simp add: edgesAgree_def addAlterFk_def Let_def relEdge_def)
qed

lemma edgesAgree_foldl_addAlterFk:
  "ti < length (fst st) \<Longrightarrow> edgesAgree st \<Longrightarrow> edgesAgree (foldl (addAlterFk ti refTable) st cs)"
  by (induction cs arbitrary: st) (simp_all add: edgesAgree_addAlterFk addAlterFk_length)

lemma edgesAgree_applyAlterFk: "edgesAgree st \<Longrightarrow> edgesAgree (applyAlterFk st mt)"
  by (auto simp: applyAlterFk_def Let_def edgesAgree_foldl_addAlterFk dest: findIndex_less
      split: option.splits)

lemma edgesAgree_foldl_applyAlterFk: "edgesAgree st \<Longrightarrow> edgesAgree (foldl applyAlterFk st ms)"
  by (induction ms arbitrary: st) (simp_all add: edgesAgree_applyAlterFk)

lemma fkEdges_associateIndex: "map fkEdges (associateIndex tbls e) = map fkEdges tbls"
proof (cases "findIndex (\<lambda>t. sameName (t_name t) (fst e)) tbls")
  case None
  then show ?thesis by (simp add: associateIndex_def)
next
  case (Some i)
  from findIndex_less [OF Some] have "i < length tbls" .
  then have "(map fkEdges tbls) [i := fkEdges (tbls ! i)] = map fkEdges tbls"
    by (simp add: list_update_same_conv)
  with Some show ?thesis
    by (simp add: associateIndex_def map_update fkEdges_def)
qed

lemma fkEdges_associateIndexesWithTables:
  "map fkEdges (associateIndexesWithTables tbls indexes) = map fkEdges tbls"
  unfolding associateIndexesWithTables_def
  by (induction indexes arbitrary: tbls) (simp_all add: fkEdges_associateIndex)


text \<open>Two samples: the same table twice, and an ALTER TABLE statement after its tables.\<close>

definition sql_twice :: string where
  "sql_twice = ''CREATE TABLE a (x INT REFERENCES b(id)); CREATE TABLE a (x INT REFERENCES b(id));''"

definition schema_twice :: Schema where
  "schema_twice =
     \<lparr>tables =
        [\<lparr>t_name = ''a'', t_columns = [], t_primaryKeys = [],
          t_foreignKeys = [\<lparr>fk_column = ''x'', fk_referencedTable = ''b'', fk_referencedColumn = ''id''\<rparr>],
          t_indexes = []\<rparr>,
         \<lparr>t_name = ''a'', t_columns = [], t_primaryKeys = [],
          t_foreignKeys = [\<lparr>fk_column = ''x'', fk_referencedTable = ''b'', fk_referencedColumn = ''id''\<rparr>],
          t_indexes = []\<rparr>],
      relationships =
        [\<lparr>r_id = ''a-b-0'', r_from = ''a'', r_to = ''b'', r_fromColumn = ''x'', r_toColumn = ''id''\<rparr>,
         \<lparr>r_id = ''a-b-1'', r_from = ''a'', r_to = ''b'', r_fromColumn = ''x'', r_toColumn = ''id''\<rparr>]\<rparr>"

definition sql_alter :: string where
  "sql_alter = ''CREATE TABLE orders (id INT); CREATE TABLE order_items (order_id INT); ALTER TABLE order_items ADD FOREIGN KEY (order_id) REFERENCES orders(id);''"

definition schema_alter :: Schema where
  "schema_alter =
     \<lparr>tables =
        [\<lparr>t_name = ''orders'',
          t_columns = [\<lparr>c_name = ''id'', c_type = ''INT'', c_nullable = True,
                        c_isPrimary = False, c_isForeign = False\<rparr>],
          t_primaryKeys = [], t_foreignKeys = [], t_indexes = []\<rparr>,
         \<lparr>t_name = ''order_items'',
          t_columns = [\<lparr>c_name = ''order_id'', c_type = ''INT'', c_nullable = True,
                        c_isPrimary = False, c_isForeign = True\<rparr>],
          t_primaryKeys = [],
          t_foreignKeys =
            [\<lparr>fk_column = ''order_id'', fk_referencedTable = ''orders'', fk_referencedColumn = ''id''\<rparr>,
             \<lparr>fk_column = ''order_id'', fk_referencedTable = ''orders'', fk_referencedColumn = ''id''\<rparr>],
          t_indexes = []\<rparr>],
      relationships =
        [\<lparr>r_id = ''order_items-orders-0'', r_from = ''order_items'', r_to = ''orders'',
          r_fromColumn = ''order_id'', r_toColumn = ''id''\<rparr>,
         \<lparr>r_id = ''order_items-orders-1'', r_from = ''order_items'', r_to = ''orders'',
          r_fromColumn = ''order_id'', r_toColumn = ''id''\<rparr>]\<rparr>"

lemma parseSQL_sql_twice: "parseSQL sql_twice = Some schema_twice"
  unfolding parseSQL_fallback by code_simp

lemma parseSQL_sql_alter: "parseSQL sql_alter = Some schema_alter"
  unfolding parseSQL_fallback by code_simp

text \<open>
  C2, as the specification has it: for every foreign key of every table of the schema,
  exactly one relationship has the name of the table as source and the referenced table and
  the two columns of the foreign key. It fails where two foreign keys have the same four
  values, since nothing removes duplicates: for two CREATE TABLE statements of the same
  table, both tables are kept, and the foreign key of the first has two relationships with
  its values.
\<close>

theorem relationships_counterexample:
  "parseSQL sql_twice = Some schema_twice
   \<and> fkEdges (tables schema_twice ! 0) = [(''a'', ''b'', ''x'', ''id'')]
   \<and> count_list (map relEdge (relationships schema_twice)) (''a'', ''b'', ''x'', ''id'') = 2"
  by (simp add: parseSQL_sql_twice)
     (simp add: schema_twice_def fkEdges_def fkEdge_def relEdge_def)

text \<open>
  C2, amended: the relationships of the schema, without their ids, are the foreign keys
  of its tables (with the name of the table), each as often as it occurs: for any four
  values there are as many relationships as foreign keys.
\<close>

theorem relationships_match_foreignKeys:
  assumes "parseSQL sql = Some sch"
  shows "mset (map relEdge (relationships sch)) = mset (concat (map fkEdges (tables sch)))"
proof -
  from parseSQL_shape [of sql] assms obtain indexes ms ms1 ms2 where
    sch: "sch = \<lparr>tables = associateIndexesWithTables (fst (afterPasses ms ms1 ms2)) indexes,
                  relationships = snd (afterPasses ms ms1 ms2)\<rparr>"
    by auto
  have "edgesAgree ([], [])" by (simp add: edgesAgree_def)
  then have "edgesAgree (afterPasses ms ms1 ms2)"
    unfolding afterPasses_def
    by (intro edgesAgree_foldl_applyAlterFk edgesAgree_foldl_addTable)
  then show ?thesis
    by (simp add: sch edgesAgree_def fkEdges_associateIndexesWithTables)
qed


theorem relationships_match_foreignKeys_witness:
  "parseSQL sql_alter = Some schema_alter
   \<and> mset (map relEdge (relationships schema_alter)) = mset (concat (map fkEdges (tables schema_alter)))"
  using relationships_match_foreignKeys [OF parseSQL_sql_alter] parseSQL_sql_alter by simp

section \<open>Indexes\<close>






















section \<open>An ALTER TABLE statement without a constraint name\<close>








lemma isWord_simps [simp]:
  "isWord x \<Longrightarrow> \<not> isSpace x"
  "isWord x \<Longrightarrow> x \<noteq> CHR '')''"
  "isWord x \<Longrightarrow> x \<noteq> CHR ''(''"
  "isWord x \<Longrightarrow> x \<noteq> CHR '',''"
  "isWord x \<Longrightarrow> x \<noteq> CHR ''.''"
  "isWord x \<Longrightarrow> x \<noteq> CHR 0x22"
  "isWord x \<Longrightarrow> x \<noteq> CHR 0x60"
  "isWord x \<Longrightarrow> x \<noteq> CHR 0x27"
  by (auto simp: isWord_def isSpace_def Let_def)

















subsection \<open>Clean names\<close>











subsection \<open>Decimal digits\<close>






subsection \<open>The matches of one ALTER TABLE statement\<close>

















section \<open>A composite primary key\<close>









lemma markKeys_name [simp]: "c_name (markKeys primaryKeys foreignKeys column) = c_name column"
  by (simp add: markKeys_def Let_def)












end
